theory Spec2Isabelle
  imports Main
begin

section \<open>The exam flow (App): steps, persisted records, state\<close>

text \<open>
  Modelled from the spec: the enum \<open>AppStep\<close> and the interfaces \<open>User\<close> and
  \<open>Recording\<close> are declared in \<^verbatim>\<open>types.ts\<close>, which is not among the sources. The
  members of \<open>AppStep\<close> are the steps of section 4.4 of the specification (the ones the
  App component names); the fields of \<open>User\<close> and \<open>Recording\<close> are the ones the App
  component writes in \<^verbatim>\<open>handleLogin\<close> and \<^verbatim>\<open>saveRecording\<close>.
\<close>

datatype AppStep =
  LOGIN | DASHBOARD | SESSION_1 | BREAK_1 | SESSION_2 | BREAK_2 | SESSION_3 | COMPLETION

record User =
  fullName :: string
  docId :: string

text \<open>A \<open>Blob\<close> is its bytes; \<^verbatim>\<open>new Blob(parts)\<close> concatenates the parts.\<close>

type_synonym blob = "nat list"

record Recording =
  sessionId :: int
  blob :: blob
  url :: string
  filename :: string

text \<open>
  The objects of \<^verbatim>\<open>recordingsToSave\<close>, as \<^verbatim>\<open>JSON.stringify\<close> writes them, and the
  object of \<^verbatim>\<open>saveSessionState\<close>.
\<close>

record StoredRecording =
  st_sessionId :: int
  st_url :: string
  st_filename :: string
  blobData :: "nat list"

record SessionData =
  sessionNumber :: int
  isBreakScreen :: bool
  timestamp :: int

text \<open>
  What \<^verbatim>\<open>localStorage\<close> holds under one key, seen through the two things the App does
  with the string it gets: test it for truthiness and hand it to \<^verbatim>\<open>JSON.parse\<close>.
  \<open>Blank\<close> is the empty string (falsy), \<open>Garbled\<close> a non-empty string that
  \<^verbatim>\<open>JSON.parse\<close> rejects with a \<^verbatim>\<open>SyntaxError\<close>, \<open>Json v\<close> a string that parses to
  the value \<open>v\<close> of the shape the App itself writes under that key. A key that is not
  set is \<open>None\<close> (\<^verbatim>\<open>getItem\<close> returns \<^verbatim>\<open>null\<close>).
\<close>

datatype 'a stored = Blank | Garbled | Json 'a

record localStorage =
  vocalBoothUser :: "User stored option"
  vocalBoothRecordings :: "StoredRecording list stored option"
  vocalBoothCurrentSession :: "SessionData stored option"

datatype exn = SyntaxError

definition truthy :: "'a stored option \<Rightarrow> bool" where
  "truthy item = (case item of None \<Rightarrow> False | Some Blank \<Rightarrow> False | Some _ \<Rightarrow> True)"

definition JSON_parse :: "'a stored option \<Rightarrow> exn + 'a" where
  "JSON_parse item = (case item of Some (Json v) \<Rightarrow> Inr v | _ \<Rightarrow> Inl SyntaxError)"

text \<open>A callback registered with \<^verbatim>\<open>setTimeout\<close>, with its delay in milliseconds.\<close>

datatype task = RemoveCurrentSession

record App =
  user :: "User option"
  currentStep :: AppStep
  recordings :: "Recording list"
  app_videoReady :: bool
  app_audioReady :: bool
  app_videoEnabled :: bool
  app_audioEnabled :: bool
  storage :: localStorage
  timeouts :: "(nat \<times> task) list"

text \<open>The state of the first render, over whatever the browser has persisted.\<close>

definition initial :: "localStorage \<Rightarrow> App" where
  "initial ls = \<lparr> user = None, currentStep = LOGIN, recordings = [],
     app_videoReady = False, app_audioReady = False,
     app_videoEnabled = False, app_audioEnabled = False,
     storage = ls, timeouts = [] \<rparr>"

subsection \<open>Text of numbers and arrays\<close>

fun digits :: "nat \<Rightarrow> string" where
  "digits n = (if n < 10 then [char_of (48 + n)]
               else digits (n div 10) @ [char_of (48 + n mod 10)])"

declare digits.simps [simp del]

definition number_toString :: "int \<Rightarrow> string" where
  "number_toString i = (if i < 0 then CHR ''-'' # digits (nat (- i)) else digits (nat i))"

fun join_comma :: "string list \<Rightarrow> string" where
  "join_comma [] = []"
| "join_comma [x] = x"
| "join_comma (x # y # ys) = x @ CHR '','' # join_comma (y # ys)"

text \<open>
  \<^verbatim>\<open>new Blob([rec.blobData])\<close>: the single part is a plain array, which the constructor
  turns into its text (the elements in decimal, separated by commas).
\<close>

definition Blob_of_array :: "nat list \<Rightarrow> blob" where
  "Blob_of_array xs = map of_char (join_comma (map digits xs))"

subsection \<open>The effects that run on mount\<close>

text \<open>
  An effect returns the exception that escaped it, if any, and the state it left.
\<close>

type_synonym effect = "App \<Rightarrow> exn option \<times> App"

definition removeItem_Recordings :: "App \<Rightarrow> App" where
  "removeItem_Recordings s = s\<lparr> storage := (storage s)\<lparr> vocalBoothRecordings := None \<rparr> \<rparr>"

definition removeItem_User :: "App \<Rightarrow> App" where
  "removeItem_User s = s\<lparr> storage := (storage s)\<lparr> vocalBoothUser := None \<rparr> \<rparr>"

definition removeItem_CurrentSession :: "App \<Rightarrow> App" where
  "removeItem_CurrentSession s =
     s\<lparr> storage := (storage s)\<lparr> vocalBoothCurrentSession := None \<rparr> \<rparr>"

definition restore :: "StoredRecording \<Rightarrow> Recording" where
  "restore r = \<lparr> sessionId = st_sessionId r, blob = Blob_of_array (blobData r),
     url = st_url r, filename = st_filename r \<rparr>"

text \<open>"Load recordings from localStorage on mount" (the same in both variants).\<close>

definition load_recordings :: effect where
  "load_recordings s =
     (let savedRecordings = vocalBoothRecordings (storage s) in
      if truthy savedRecordings then
        (case JSON_parse savedRecordings of
           Inr parsedRecordings \<Rightarrow> (None, s\<lparr> recordings := map restore parsedRecordings \<rparr>)
         | Inl e \<Rightarrow> (None, removeItem_Recordings s))
      else (None, s))"

definition reset_devices :: "App \<Rightarrow> App" where
  "reset_devices s = s\<lparr> app_videoReady := False, app_audioReady := False,
     app_videoEnabled := False, app_audioEnabled := False \<rparr>"

text \<open>
  The test "user has completed all 3 sessions" of the resume effect: its own
  \<^verbatim>\<open>try\<close>/\<^verbatim>\<open>catch\<close> swallows a parse error, and the effect goes on.
\<close>

definition all_sessions_recorded :: "App \<Rightarrow> bool" where
  "all_sessions_recorded s =
     (let savedRecordings = vocalBoothRecordings (storage s) in
      truthy savedRecordings \<and>
      (case JSON_parse savedRecordings of
         Inr parsedRecordings \<Rightarrow> 3 \<le> length parsedRecordings
       | Inl e \<Rightarrow> False))"

text \<open>
  Variant A (\<^verbatim>\<open>part_000\<close>): the body of the \<^verbatim>\<open>try\<close> of "Check for existing login and
  session state on mount". An in-progress session sends the user to the dashboard; a
  checkpoint that is neither a break nor has a truthy session number sets no step.
\<close>

definition resume_A_try :: effect where
  "resume_A_try s =
     (let savedUser = vocalBoothUser (storage s) in
      if truthy savedUser then
        (case JSON_parse savedUser of
           Inl e \<Rightarrow> (Some e, s)
         | Inr parsedUser \<Rightarrow>
            (let s1 = s\<lparr> user := Some parsedUser \<rparr> in
             if all_sessions_recorded s1 then (None, s1\<lparr> currentStep := COMPLETION \<rparr>)
             else
              (let savedSession = vocalBoothCurrentSession (storage s1) in
               if truthy savedSession then
                 (case JSON_parse savedSession of
                    Inl e \<Rightarrow> (Some e, s1)
                  | Inr sessionData \<Rightarrow>
                     (None, reset_devices
                       (if isBreakScreen sessionData then
                          (if sessionNumber sessionData = 1 then s1\<lparr> currentStep := BREAK_1 \<rparr>
                           else if sessionNumber sessionData = 2 then s1\<lparr> currentStep := BREAK_2 \<rparr>
                           else s1\<lparr> currentStep := DASHBOARD \<rparr>)
                        else if sessionNumber sessionData \<noteq> 0 then s1\<lparr> currentStep := DASHBOARD \<rparr>
                        else s1)))
               else (None, reset_devices (s1\<lparr> currentStep := DASHBOARD \<rparr>)))))
      else (None, s))"

definition resume_A :: effect where
  "resume_A s =
     (case resume_A_try s of
        (None, s') \<Rightarrow> (None, s')
      | (Some e, s') \<Rightarrow>
          (None, removeItem_CurrentSession (removeItem_Recordings (removeItem_User s'))))"

text \<open>
  Variant B (\<^verbatim>\<open>part_001\<close>): the \<^verbatim>\<open>try\<close> is inside the test of the saved user, an
  in-progress session sends the user to the break after it (to the completion screen
  after session 3), and the \<^verbatim>\<open>catch\<close> keeps the recordings and sets the dashboard.
\<close>

definition resume_B_try :: effect where
  "resume_B_try s =
     (case JSON_parse (vocalBoothUser (storage s)) of
        Inl e \<Rightarrow> (Some e, s)
      | Inr parsedUser \<Rightarrow>
         (let s1 = s\<lparr> user := Some parsedUser \<rparr> in
          if all_sessions_recorded s1 then (None, s1\<lparr> currentStep := COMPLETION \<rparr>)
          else
           (let savedSession = vocalBoothCurrentSession (storage s1) in
            if truthy savedSession then
              (case JSON_parse savedSession of
                 Inl e \<Rightarrow> (Some e, s1)
               | Inr sessionData \<Rightarrow>
                  (None, reset_devices
                    (if isBreakScreen sessionData then
                       (if sessionNumber sessionData = 1 then s1\<lparr> currentStep := BREAK_1 \<rparr>
                        else if sessionNumber sessionData = 2 then s1\<lparr> currentStep := BREAK_2 \<rparr>
                        else s1\<lparr> currentStep := DASHBOARD \<rparr>)
                     else
                       (if sessionNumber sessionData = 1 then s1\<lparr> currentStep := BREAK_1 \<rparr>
                        else if sessionNumber sessionData = 2 then s1\<lparr> currentStep := BREAK_2 \<rparr>
                        else if sessionNumber sessionData = 3 then s1\<lparr> currentStep := COMPLETION \<rparr>
                        else s1\<lparr> currentStep := DASHBOARD \<rparr>))))
            else (None, reset_devices (s1\<lparr> currentStep := DASHBOARD \<rparr>)))))"

definition resume_B :: effect where
  "resume_B s =
     (if truthy (vocalBoothUser (storage s)) then
        (case resume_B_try s of
           (None, s') \<Rightarrow> (None, s')
         | (Some e, s') \<Rightarrow>
             (None, (removeItem_CurrentSession (removeItem_User s'))\<lparr> currentStep := DASHBOARD \<rparr>))
      else (None, s))"

text \<open>
  Effects run in the order the component declares them; an exception that escapes one
  ends the run. On the first render the other effects of the component do nothing: the
  step is \<open>LOGIN\<close> and the list of recordings they close over is empty.
\<close>

definition and_then :: "effect \<Rightarrow> effect \<Rightarrow> effect" where
  "and_then f g s = (case f s of (None, s') \<Rightarrow> g s' | (Some e, s') \<Rightarrow> (Some e, s'))"

definition mount_A :: "localStorage \<Rightarrow> exn option \<times> App" where
  "mount_A ls = and_then load_recordings resume_A (initial ls)"

definition mount_B :: "localStorage \<Rightarrow> exn option \<times> App" where
  "mount_B ls = and_then load_recordings resume_B (initial ls)"

subsection \<open>Handlers of the App\<close>

definition is_space :: "char \<Rightarrow> bool" where
  \<comment> \<open>the class \<^verbatim>\<open>\s\<close>, on the characters a \<open>char\<close> can be\<close>
  "is_space c = (of_char c \<in> {9, 10, 11, 12, 13, 32, 160 :: nat})"

function replace_spaces :: "string \<Rightarrow> string" where
  \<comment> \<open>\<^verbatim>\<open>.replace(/\s+/g, '_')\<close>: every maximal run of white space becomes one underscore\<close>
  "replace_spaces [] = []"
| "replace_spaces (c # cs) =
     (if is_space c then CHR ''_'' # replace_spaces (dropWhile is_space cs)
      else c # replace_spaces cs)"
  by pat_completeness auto
termination
  by (relation "measure length") (auto simp: less_Suc_eq_le length_dropWhile_le)

definition saveSessionState :: "int \<Rightarrow> bool \<Rightarrow> int \<Rightarrow> App \<Rightarrow> App" where
  \<comment> \<open>the last but one argument is the value of \<^verbatim>\<open>Date.now()\<close>\<close>
  "saveSessionState sid isBreak now s =
     s\<lparr> storage := (storage s)\<lparr> vocalBoothCurrentSession :=
          Some (Json \<lparr> sessionNumber = sid, isBreakScreen = isBreak, timestamp = now \<rparr>) \<rparr> \<rparr>"

definition handleStartExam :: "int \<Rightarrow> App \<Rightarrow> App" where
  "handleStartExam now s = saveSessionState 1 False now (s\<lparr> currentStep := SESSION_1 \<rparr>)"

text \<open>
  \<^verbatim>\<open>saveRecording(blob, sessionId)\<close>. The first argument stands for
  \<^verbatim>\<open>URL.createObjectURL\<close>, which the browser provides.
\<close>

definition saveRecording :: "(blob \<Rightarrow> string) \<Rightarrow> blob \<Rightarrow> int \<Rightarrow> App \<Rightarrow> App" where
  "saveRecording createObjectURL b sid s =
     (case user s of
        None \<Rightarrow> s
      | Some u \<Rightarrow>
         (let newRecording = \<lparr> sessionId = sid, blob = b, url = createObjectURL b,
                filename = replace_spaces (fullName u) @ ''_Session_'' @ number_toString sid
                           @ ''.webm'' \<rparr>
          in s\<lparr> recordings := filter (\<lambda>r. sessionId r \<noteq> sid) (recordings s) @ [newRecording],
                timeouts := timeouts s @ [(1000, RemoveCurrentSession)],
                currentStep := (if sid = 1 then BREAK_1
                                else if sid = 2 then BREAK_2
                                else if sid = 3 then COMPLETION
                                else currentStep s) \<rparr>))"

definition run_task :: "task \<Rightarrow> App \<Rightarrow> App" where
  "run_task t s = (case t of RemoveCurrentSession \<Rightarrow> removeItem_CurrentSession s)"

section \<open>The session recorder: countdown and finish\<close>

datatype RecordingState = inactive | recording | paused

text \<open>
  A \<open>MediaRecorder\<close>: its state and the data it has captured and not yet handed to
  \<^verbatim>\<open>ondataavailable\<close>.
\<close>

record MediaRecorder =
  state :: RecordingState
  captured :: blob

text \<open>
  The state and refs of one \<open>SessionRecorder\<close>. \<open>intervals\<close> are the intervals of the
  component that the browser still runs: the handle \<^verbatim>\<open>setInterval\<close> returned and the
  value of \<open>error\<close> that the callback closed over when \<^verbatim>\<open>startTimer\<close> was called.
\<close>

record SessionRecorder =
  timeLeft :: int
  isRecording :: bool
  error :: "string option"
  mediaRecorderRef :: "MediaRecorder option"
  chunksRef :: "blob list"
  timerRef :: "nat option"
  isExpectedToEnd :: bool
  intervals :: "(nat \<times> string option) list"
  nextHandle :: nat

definition mounted :: SessionRecorder where
  "mounted = \<lparr> timeLeft = 60, isRecording = False, error = None, mediaRecorderRef = None,
     chunksRef = [], timerRef = None, isExpectedToEnd = False, intervals = [],
     nextHandle = 1 \<rparr>"

definition clearInterval :: "nat \<Rightarrow> SessionRecorder \<Rightarrow> SessionRecorder" where
  "clearInterval h s = s\<lparr> intervals := filter (\<lambda>(i, e). i \<noteq> h) (intervals s) \<rparr>"

definition stopTimer :: "SessionRecorder \<Rightarrow> SessionRecorder" where
  "stopTimer s =
     (case timerRef s of
        Some h \<Rightarrow> (clearInterval h s)\<lparr> timerRef := None \<rparr>
      | None \<Rightarrow> s)"

definition startTimer :: "string option \<Rightarrow> SessionRecorder \<Rightarrow> SessionRecorder" where
  \<comment> \<open>the first argument is the \<open>error\<close> of the render whose \<^verbatim>\<open>startTimer\<close> this is\<close>
  "startTimer err s =
     (let s1 = (case timerRef s of Some h \<Rightarrow> clearInterval h s | None \<Rightarrow> s);
          h = nextHandle s1
      in s1\<lparr> timerRef := Some h, intervals := intervals s1 @ [(h, err)],
             nextHandle := Suc h \<rparr>)"

definition is_error :: "string option \<Rightarrow> bool" where
  \<comment> \<open>\<^verbatim>\<open>if (error)\<close>: neither \<^verbatim>\<open>null\<close> nor the empty string\<close>
  "is_error err = (case err of None \<Rightarrow> False | Some m \<Rightarrow> m \<noteq> [])"

text \<open>
  \<^verbatim>\<open>recorder.stop()\<close> with the two handlers the component installed: the recorder
  becomes inactive, hands over what it captured (\<^verbatim>\<open>ondataavailable\<close> keeps a chunk of
  positive size) and then stops (\<^verbatim>\<open>onstop\<close> completes the session when the stop was
  expected). \<open>onComplete\<close> is the prop of the component, acting on the state of its
  parent.
\<close>

definition recorder_stop ::
  "(blob \<Rightarrow> 'a \<Rightarrow> 'a) \<Rightarrow> MediaRecorder \<Rightarrow> SessionRecorder \<times> 'a \<Rightarrow> SessionRecorder \<times> 'a" where
  "recorder_stop onComplete r = (\<lambda>(s, parent).
     (let s1 = s\<lparr> mediaRecorderRef := Some (r\<lparr> state := inactive, captured := [] \<rparr>) \<rparr>;
          s2 = (if length (captured r) > 0
                then s1\<lparr> chunksRef := chunksRef s1 @ [captured r] \<rparr> else s1)
      in if isExpectedToEnd s2 then (s2, onComplete (concat (chunksRef s2)) parent)
         else (s2, parent)))"

definition handleFinishSession ::
  "(blob \<Rightarrow> 'a \<Rightarrow> 'a) \<Rightarrow> string option \<Rightarrow> SessionRecorder \<times> 'a \<Rightarrow> SessionRecorder \<times> 'a" where
  \<comment> \<open>the second argument is the \<open>error\<close> of the render whose handler this is\<close>
  "handleFinishSession onComplete err = (\<lambda>(s, parent).
     if is_error err then (stopTimer s, onComplete [] parent)
     else
       (let s1 = stopTimer s in
        case mediaRecorderRef s1 of
          None \<Rightarrow> (s1, onComplete [] parent)
        | Some r \<Rightarrow>
            if state r \<noteq> inactive
            then recorder_stop onComplete r (s1\<lparr> isExpectedToEnd := True \<rparr>, parent)
            else (s1, onComplete [] parent)))"

text \<open>The test of the handler for a recorder that can be stopped.\<close>

definition active_recorder :: "SessionRecorder \<Rightarrow> bool" where
  "active_recorder s = (case mediaRecorderRef s of Some r \<Rightarrow> state r \<noteq> inactive | None \<Rightarrow> False)"

text \<open>The button "FINISH & NEXT" / "SKIP & NEXT": the handler of the current render.\<close>

definition click_finish ::
  "(blob \<Rightarrow> 'a \<Rightarrow> 'a) \<Rightarrow> SessionRecorder \<times> 'a \<Rightarrow> SessionRecorder \<times> 'a" where
  "click_finish onComplete = (\<lambda>(s, parent). handleFinishSession onComplete (error s) (s, parent))"

text \<open>The callback of the interval: the updater given to \<^verbatim>\<open>setTimeLeft\<close>.\<close>

definition timer_callback ::
  "(blob \<Rightarrow> 'a \<Rightarrow> 'a) \<Rightarrow> string option \<Rightarrow> SessionRecorder \<times> 'a \<Rightarrow> SessionRecorder \<times> 'a" where
  "timer_callback onComplete err = (\<lambda>(s, parent).
     if timeLeft s \<le> 1 then
       (case handleFinishSession onComplete err (s, parent) of
          (s', parent') \<Rightarrow> (s'\<lparr> timeLeft := 0 \<rparr>, parent'))
     else (s\<lparr> timeLeft := timeLeft s - 1 \<rparr>, parent))"

text \<open>
  One second passes: the browser runs the callback of every interval that was active
  when the second began and has not been cleared since.
\<close>

definition tick ::
  "(blob \<Rightarrow> 'a \<Rightarrow> 'a) \<Rightarrow> SessionRecorder \<times> 'a \<Rightarrow> SessionRecorder \<times> 'a" where
  "tick onComplete = (\<lambda>(s, parent).
     fold (\<lambda>(h, err) (s', parent').
             if h \<in> fst ` set (intervals s') then timer_callback onComplete err (s', parent')
             else (s', parent'))
          (intervals s) (s, parent))"

text \<open>A parent that only writes down the blobs it is completed with.\<close>

definition log_complete :: "blob \<Rightarrow> blob list \<Rightarrow> blob list" where
  "log_complete b calls = calls @ [b]"

section \<open>The dashboard: the device stream\<close>

datatype kind = video | audio

datatype readyState = live | ended

record MediaStreamTrack =
  kind :: kind
  readyState :: readyState
  enabled :: bool

text \<open>
  Tracks are objects that several streams and components can hold, so they live in a
  heap: the list of all tracks the browser has created, a track's address being its
  position. A \<open>MediaStream\<close> is the list of the addresses of its tracks.
\<close>

type_synonym MediaStream = "nat list"

record Dashboard =
  streamRef :: "MediaStream option"
  videoReady :: bool
  audioReady :: bool
  permissionError :: bool
  videoEnabled :: bool
  audioEnabled :: bool
  heap :: "MediaStreamTrack list"

definition deref :: "MediaStreamTrack list \<Rightarrow> nat \<Rightarrow> MediaStreamTrack option" where
  "deref h a = (if a < length h then Some (h ! a) else None)"

definition has_kind :: "MediaStreamTrack list \<Rightarrow> kind \<Rightarrow> nat \<Rightarrow> bool" where
  "has_kind h k a = (case deref h a of Some t \<Rightarrow> kind t = k | None \<Rightarrow> False)"

definition is_state :: "MediaStreamTrack list \<Rightarrow> readyState \<Rightarrow> nat \<Rightarrow> bool" where
  "is_state h r a = (case deref h a of Some t \<Rightarrow> readyState t = r | None \<Rightarrow> False)"

definition is_enabled :: "MediaStreamTrack list \<Rightarrow> nat \<Rightarrow> bool" where
  "is_enabled h a = (case deref h a of Some t \<Rightarrow> enabled t | None \<Rightarrow> False)"

definition getVideoTracks :: "MediaStreamTrack list \<Rightarrow> MediaStream \<Rightarrow> nat list" where
  "getVideoTracks h stream = filter (has_kind h video) stream"

definition getAudioTracks :: "MediaStreamTrack list \<Rightarrow> MediaStream \<Rightarrow> nat list" where
  "getAudioTracks h stream = filter (has_kind h audio) stream"

definition track_stop :: "nat \<Rightarrow> MediaStreamTrack list \<Rightarrow> MediaStreamTrack list" where
  "track_stop a h = (case deref h a of Some t \<Rightarrow> h[a := t\<lparr> readyState := ended \<rparr>] | None \<Rightarrow> h)"

definition set_enabled :: "bool \<Rightarrow> nat \<Rightarrow> MediaStreamTrack list \<Rightarrow> MediaStreamTrack list" where
  "set_enabled b a h = (case deref h a of Some t \<Rightarrow> h[a := t\<lparr> enabled := b \<rparr>] | None \<Rightarrow> h)"

definition flip_enabled :: "nat \<Rightarrow> MediaStreamTrack list \<Rightarrow> MediaStreamTrack list" where
  "flip_enabled a h = (case deref h a of Some t \<Rightarrow> h[a := t\<lparr> enabled := \<not> enabled t \<rparr>] | None \<Rightarrow> h)"

text \<open>
  What the browser answers to one \<^verbatim>\<open>getUserMedia\<close> request: it rejects, or it resolves
  with a stream of new tracks (given by their initial state).
\<close>

datatype response = Denied | Granted "MediaStreamTrack list"

definition getUserMedia ::
  "response \<Rightarrow> MediaStreamTrack list \<Rightarrow> MediaStream option \<times> MediaStreamTrack list" where
  "getUserMedia r h =
     (case r of
        Denied \<Rightarrow> (None, h)
      | Granted ts \<Rightarrow> (Some [length h ..< length h + length ts], h @ ts))"

text \<open>
  \<^verbatim>\<open>enableDevices\<close> and \<^verbatim>\<open>checkTrackStatus\<close> call each other. The first argument
  lists what the browser answers from now on: one pair per call of
  \<^verbatim>\<open>enableDevices\<close>, the answer to its video request and the answer to its audio
  request. When the list is empty the requests stay pending: the call has stopped the
  old tracks and does nothing more. These two functions describe a call that nothing
  interrupts: the source function is asynchronous and suspends at each of its two
  \<^verbatim>\<open>await\<close>s, and what can happen in between is the subject of the stretches and
  events defined further down. Nothing in the body throws once the two rejections are
  caught, so the outer \<^verbatim>\<open>catch\<close> has no branch here.
\<close>

fun enableDevices :: "(response \<times> response) list \<Rightarrow> Dashboard \<Rightarrow> Dashboard"
and checkTrackStatus :: "(response \<times> response) list \<Rightarrow> MediaStream option \<Rightarrow> Dashboard \<Rightarrow> Dashboard"
where
  "enableDevices [] d =
     (let d1 = d\<lparr> permissionError := False \<rparr> in
      case streamRef d1 of
        Some old \<Rightarrow> d1\<lparr> heap := fold track_stop old (heap d1) \<rparr>
      | None \<Rightarrow> d1)"
| "enableDevices ((videoAnswer, audioAnswer) # answers) d =
     (let d1 = d\<lparr> permissionError := False \<rparr>;
          d2 = (case streamRef d1 of
                  Some old \<Rightarrow> d1\<lparr> heap := fold track_stop old (heap d1) \<rparr>
                | None \<Rightarrow> d1);
          (videoStream, h3) = getUserMedia videoAnswer (heap d2);
          d3 = (if videoStream = None
                then d2\<lparr> heap := h3, videoReady := False, videoEnabled := False \<rparr>
                else d2\<lparr> heap := h3 \<rparr>);
          (audioStream, h4) = getUserMedia audioAnswer (heap d3);
          d4 = (if audioStream = None
                then d3\<lparr> heap := h4, audioReady := False, audioEnabled := False \<rparr>
                else d3\<lparr> heap := h4 \<rparr>)
      in if videoStream \<noteq> None \<or> audioStream \<noteq> None then
           (let combinedStream = (case videoStream of Some vs \<Rightarrow> vs | None \<Rightarrow> [])
                                 @ (case audioStream of Some as \<Rightarrow> as | None \<Rightarrow> [])
            in checkTrackStatus answers (Some combinedStream)
                 (d4\<lparr> streamRef := Some combinedStream \<rparr>))
         else d4\<lparr> permissionError := True, videoReady := False, audioReady := False,
                  videoEnabled := False, audioEnabled := False \<rparr>)"
| "checkTrackStatus answers None d =
     d\<lparr> videoReady := False, audioReady := False, videoEnabled := False, audioEnabled := False \<rparr>"
| "checkTrackStatus answers (Some stream) d =
     (let videoTracks = getVideoTracks (heap d) stream;
          audioTracks = getAudioTracks (heap d) stream;
          hasVideoTrack = (length videoTracks > 0);
          hasAudioTrack = (length audioTracks > 0);
          isVideoLive = (hasVideoTrack \<and> list_ex (is_state (heap d) live) videoTracks);
          isAudioLive = (hasAudioTrack \<and> list_ex (is_state (heap d) live) audioTracks);
          hasEndedVideoTrack = (hasVideoTrack \<and> list_ex (is_state (heap d) ended) videoTracks);
          hasEndedAudioTrack = (hasAudioTrack \<and> list_ex (is_state (heap d) ended) audioTracks)
      in if hasEndedVideoTrack \<or> hasEndedAudioTrack then enableDevices answers d
         else d\<lparr> videoReady := isVideoLive, audioReady := isAudioLive,
                 videoEnabled := (case videoTracks of a # _ \<Rightarrow> is_enabled (heap d) a | [] \<Rightarrow> False),
                 audioEnabled := (case audioTracks of a # _ \<Rightarrow> is_enabled (heap d) a | [] \<Rightarrow> False) \<rparr>)"

text \<open>The two toggles the dashboard exposes, the 5-second reconnect and the unmount.\<close>

definition toggleVideo :: "(response \<times> response) list \<Rightarrow> Dashboard \<Rightarrow> Dashboard" where
  "toggleVideo answers d =
     (case streamRef d of
        Some stream \<Rightarrow>
          checkTrackStatus answers (Some stream)
            (d\<lparr> heap := fold flip_enabled (getVideoTracks (heap d) stream) (heap d) \<rparr>)
      | None \<Rightarrow> d)"

definition toggleAudio :: "(response \<times> response) list \<Rightarrow> Dashboard \<Rightarrow> Dashboard" where
  "toggleAudio answers d =
     (case streamRef d of
        Some stream \<Rightarrow>
          checkTrackStatus answers (Some stream)
            (d\<lparr> heap := fold flip_enabled (getAudioTracks (heap d) stream) (heap d) \<rparr>)
      | None \<Rightarrow> d)"

definition checkAndReconnect :: "(response \<times> response) list \<Rightarrow> Dashboard \<Rightarrow> Dashboard" where
  "checkAndReconnect answers d =
     (if streamRef d \<noteq> None \<and> (\<not> videoReady d \<or> \<not> audioReady d)
      then enableDevices answers d else d)"

definition cleanup :: "Dashboard \<Rightarrow> Dashboard" where
  "cleanup d =
     (case streamRef d of
        Some stream \<Rightarrow>
          d\<lparr> heap := fold (\<lambda>a h. set_enabled False a (track_stop a h)) stream (heap d),
             streamRef := None \<rparr>
      | None \<Rightarrow> d)"

text \<open>
  Operations on the controller each of which runs to its end before the next begins,
  and a run of them from the mounted dashboard.
\<close>

datatype operation =
  Acquire "(response \<times> response) list"
| Release
| ToggleVideo "(response \<times> response) list"
| ToggleAudio "(response \<times> response) list"
| Reconnect "(response \<times> response) list"

fun apply_operation :: "operation \<Rightarrow> Dashboard \<Rightarrow> Dashboard" where
  "apply_operation (Acquire answers) d = enableDevices answers d"
| "apply_operation Release d = cleanup d"
| "apply_operation (ToggleVideo answers) d = toggleVideo answers d"
| "apply_operation (ToggleAudio answers) d = toggleAudio answers d"
| "apply_operation (Reconnect answers) d = checkAndReconnect answers d"

definition dashboard_mounted :: Dashboard where
  "dashboard_mounted = \<lparr> streamRef = None, videoReady = False, audioReady = False,
     permissionError = False, videoEnabled = False, audioEnabled = False, heap = [] \<rparr>"

definition run :: "operation list \<Rightarrow> Dashboard \<Rightarrow> Dashboard" where
  "run ops d = fold apply_operation ops d"

text \<open>The tracks that are live, and the ones the controller holds.\<close>

definition live_in :: "MediaStreamTrack list \<Rightarrow> nat set" where
  "live_in h = {a. a < length h \<and> readyState (h ! a) = live}"

definition live_tracks :: "Dashboard \<Rightarrow> nat set" where
  "live_tracks d = live_in (heap d)"

definition held_tracks :: "Dashboard \<Rightarrow> nat set" where
  "held_tracks d = (case streamRef d of Some stream \<Rightarrow> set stream | None \<Rightarrow> {})"

text \<open>
  The block "Stop existing tracks if any" with which \<open>enableDevices\<close> begins, and
  the tracks an answer brings; both serve to state what \<open>enableDevices\<close> does.
\<close>

definition stop_existing :: "Dashboard \<Rightarrow> Dashboard" where
  "stop_existing d =
     (case streamRef d of
        Some old \<Rightarrow> d\<lparr> permissionError := False, heap := fold track_stop old (heap d) \<rparr>
      | None \<Rightarrow> d\<lparr> permissionError := False \<rparr>)"

fun granted :: "response \<Rightarrow> MediaStreamTrack list" where
  "granted Denied = []"
| "granted (Granted ts) = ts"

text \<open>
  \<^verbatim>\<open>enableDevices\<close> as the asynchronous function it is. Its body has three stretches:
  up to the first \<^verbatim>\<open>await\<close> (\<open>stop_existing\<close>, after which the video request is
  pending), from the answer to the video request to the second \<^verbatim>\<open>await\<close>
  (\<open>video_settled\<close>), and from the answer to the audio request to the end
  (\<open>audio_settled\<close>). A call in flight is suspended at one of the two \<^verbatim>\<open>await\<close>s; at
  the second it carries its local \<^verbatim>\<open>videoStream\<close>.
\<close>

datatype call = AwaitingVideo | AwaitingAudio "MediaStream option"

definition video_settled :: "response \<Rightarrow> Dashboard \<Rightarrow> MediaStream option \<times> Dashboard" where
  "video_settled videoAnswer d2 =
     (let (videoStream, h3) = getUserMedia videoAnswer (heap d2);
          d3 = (if videoStream = None
                then d2\<lparr> heap := h3, videoReady := False, videoEnabled := False \<rparr>
                else d2\<lparr> heap := h3 \<rparr>)
      in (videoStream, d3))"

text \<open>
  \<^verbatim>\<open>checkTrackStatus\<close> within one stretch: the call of \<^verbatim>\<open>enableDevices\<close> it makes on
  an ended track is not awaited, so it runs up to its first \<^verbatim>\<open>await\<close> and is then in
  flight. The second component tells whether such a call was started.
\<close>

fun check_status :: "MediaStream option \<Rightarrow> Dashboard \<Rightarrow> Dashboard \<times> bool" where
  "check_status None d =
     (d\<lparr> videoReady := False, audioReady := False, videoEnabled := False,
         audioEnabled := False \<rparr>, False)"
| "check_status (Some stream) d =
     (let videoTracks = getVideoTracks (heap d) stream;
          audioTracks = getAudioTracks (heap d) stream;
          hasVideoTrack = (length videoTracks > 0);
          hasAudioTrack = (length audioTracks > 0);
          isVideoLive = (hasVideoTrack \<and> list_ex (is_state (heap d) live) videoTracks);
          isAudioLive = (hasAudioTrack \<and> list_ex (is_state (heap d) live) audioTracks);
          hasEndedVideoTrack = (hasVideoTrack \<and> list_ex (is_state (heap d) ended) videoTracks);
          hasEndedAudioTrack = (hasAudioTrack \<and> list_ex (is_state (heap d) ended) audioTracks)
      in if hasEndedVideoTrack \<or> hasEndedAudioTrack then (stop_existing d, True)
         else (d\<lparr> videoReady := isVideoLive, audioReady := isAudioLive,
                 videoEnabled := (case videoTracks of a # _ \<Rightarrow> is_enabled (heap d) a | [] \<Rightarrow> False),
                 audioEnabled := (case audioTracks of a # _ \<Rightarrow> is_enabled (heap d) a | [] \<Rightarrow> False) \<rparr>,
               False))"

definition audio_settled ::
  "MediaStream option \<Rightarrow> response \<Rightarrow> Dashboard \<Rightarrow> Dashboard \<times> bool" where
  "audio_settled videoStream audioAnswer d3 =
     (let (audioStream, h4) = getUserMedia audioAnswer (heap d3);
          d4 = (if audioStream = None
                then d3\<lparr> heap := h4, audioReady := False, audioEnabled := False \<rparr>
                else d3\<lparr> heap := h4 \<rparr>)
      in if videoStream \<noteq> None \<or> audioStream \<noteq> None then
           (let combinedStream = (case videoStream of Some vs \<Rightarrow> vs | None \<Rightarrow> [])
                                 @ (case audioStream of Some as \<Rightarrow> as | None \<Rightarrow> [])
            in check_status (Some combinedStream) (d4\<lparr> streamRef := Some combinedStream \<rparr>))
         else (d4\<lparr> permissionError := True, videoReady := False, audioReady := False,
                   videoEnabled := False, audioEnabled := False \<rparr>, False))"

text \<open>
  What can happen to the dashboard and the calls in flight. \<open>ClickEnable\<close> is a click
  on "Enable Camera & Microphone", which is on the screen while no stream is held; it
  calls \<^verbatim>\<open>enableDevices\<close>, and nothing looks at the calls already in flight.
  \<open>Settle i r\<close> is the browser answering \<open>r\<close> to the request the \<open>i\<close>-th call in flight
  waits for. \<open>Unmount\<close> is the cleanup of the component; the calls in flight stay.
\<close>

datatype event = ClickEnable | Settle nat response | Unmount

fun step :: "event \<Rightarrow> Dashboard \<times> call list \<Rightarrow> Dashboard \<times> call list" where
  "step ClickEnable (d, calls) =
     (if streamRef d = None then (stop_existing d, calls @ [AwaitingVideo]) else (d, calls))"
| "step (Settle i r) (d, calls) =
     (if i < length calls then
        (case calls ! i of
           AwaitingVideo \<Rightarrow>
             (let (videoStream, d3) = video_settled r d
              in (d3, calls[i := AwaitingAudio videoStream]))
         | AwaitingAudio videoStream \<Rightarrow>
             (let (d', started) = audio_settled videoStream r d
              in (d', take i calls @ drop (Suc i) calls
                      @ (if started then [AwaitingVideo] else []))))
      else (d, calls))"
| "step Unmount (d, calls) = (cleanup d, calls)"

definition run_events :: "event list \<Rightarrow> Dashboard \<times> call list \<Rightarrow> Dashboard \<times> call list" where
  "run_events evs w = fold step evs w"

text \<open>The answers to one call after the other, each answered as soon as it waits.\<close>

fun settle_all :: "(response \<times> response) list \<Rightarrow> event list" where
  "settle_all [] = []"
| "settle_all ((videoAnswer, audioAnswer) # answers) =
     Settle 0 videoAnswer # Settle 0 audioAnswer # settle_all answers"

text \<open>
  Notions for the invariant of the controller: a stream with an ended track, no live
  track outside the held stream, the held addresses exist, and how a state may follow
  another (the heap only grows, no old track comes back to life, both invariants are
  kept); \<open>releases\<close> says that every track held before is no longer live.
\<close>

definition has_ended :: "MediaStreamTrack list \<Rightarrow> MediaStream \<Rightarrow> bool" where
  "has_ended h stream =
     (list_ex (is_state h ended) (getVideoTracks h stream) \<or>
      list_ex (is_state h ended) (getAudioTracks h stream))"

definition no_leak :: "Dashboard \<Rightarrow> bool" where
  "no_leak d = (live_tracks d \<subseteq> held_tracks d)"

definition well_formed :: "Dashboard \<Rightarrow> bool" where
  "well_formed d = (held_tracks d \<subseteq> {..<length (heap d)})"

definition evolves :: "Dashboard \<Rightarrow> Dashboard \<Rightarrow> bool" where
  "evolves d d' =
     (length (heap d) \<le> length (heap d') \<and>
      live_tracks d' \<inter> {..<length (heap d)} \<subseteq> live_tracks d \<and>
      (no_leak d \<longrightarrow> no_leak d') \<and>
      (well_formed d \<longrightarrow> well_formed d'))"

definition releases :: "Dashboard \<Rightarrow> Dashboard \<Rightarrow> bool" where
  "releases d d' = (live_tracks d' \<inter> held_tracks d \<inter> {..<length (heap d)} = {})"

text \<open>The start button of the dashboard and its click.\<close>

definition allSystemsGo :: "Dashboard \<Rightarrow> bool" where
  "allSystemsGo d = (videoReady d \<and> audioReady d \<and> videoEnabled d \<and> audioEnabled d)"

definition start_disabled :: "Dashboard \<Rightarrow> bool" where
  "start_disabled d = (\<not> allSystemsGo d)"

definition click_start :: "int \<Rightarrow> Dashboard \<Rightarrow> App \<Rightarrow> App" where
  \<comment> \<open>a disabled button does not run its \<^verbatim>\<open>onClick\<close>; the first argument is \<^verbatim>\<open>Date.now()\<close>\<close>
  "click_start now d s = (if start_disabled d then s else handleStartExam now s)"

section \<open>Resuming after a reload\<close>

lemma all_sessions_recorded_user [simp]:
  "all_sessions_recorded (s\<lparr> user := x \<rparr>) = all_sessions_recorded s"
  by (simp add: all_sessions_recorded_def)

lemma all_sessions_recorded_Json:
  "vocalBoothRecordings (storage s) = Some (Json clips) \<Longrightarrow>
   all_sessions_recorded s = (3 \<le> length clips)"
  by (simp add: all_sessions_recorded_def truthy_def JSON_parse_def)

lemma resume_A_completion:
  assumes "vocalBoothUser (storage s) = Some (Json u)"
    and "vocalBoothRecordings (storage s) = Some (Json clips)"
    and "3 \<le> length clips"
  shows "resume_A s = (None, s\<lparr> user := Some u, currentStep := COMPLETION \<rparr>)"
  using assms
  by (simp add: resume_A_def resume_A_try_def truthy_def JSON_parse_def
      all_sessions_recorded_Json Let_def)

lemma resume_B_completion:
  assumes "vocalBoothUser (storage s) = Some (Json u)"
    and "vocalBoothRecordings (storage s) = Some (Json clips)"
    and "3 \<le> length clips"
  shows "resume_B s = (None, s\<lparr> user := Some u, currentStep := COMPLETION \<rparr>)"
  using assms
  by (simp add: resume_B_def resume_B_try_def truthy_def JSON_parse_def
      all_sessions_recorded_Json Let_def)

lemma load_recordings_Json:
  "vocalBoothRecordings (storage s) = Some (Json clips) \<Longrightarrow>
   load_recordings s = (None, s\<lparr> recordings := map restore clips \<rparr>)"
  by (simp add: load_recordings_def truthy_def JSON_parse_def)

lemma load_recordings_Garbled:
  "vocalBoothRecordings (storage s) = Some Garbled \<Longrightarrow>
   load_recordings s = (None, removeItem_Recordings s)"
  by (simp add: load_recordings_def truthy_def JSON_parse_def)

lemma load_recordings_None:
  "vocalBoothRecordings (storage s) = None \<Longrightarrow> load_recordings s = (None, s)"
  by (simp add: load_recordings_def truthy_def)

text \<open>
  C1. On mount with a saved user and three or more clips persisted, both variants end at
  \<open>COMPLETION\<close> and no exception escapes, whatever is saved as the current session
  (the checkpoint is not looked at: \<open>ls\<close> is arbitrary in that field).
\<close>

theorem resume_three_clips_completion:
  assumes "vocalBoothUser ls = Some (Json u)"
    and "vocalBoothRecordings ls = Some (Json clips)"
    and "3 \<le> length clips"
  shows "fst (mount_A ls) = None \<and> currentStep (snd (mount_A ls)) = COMPLETION \<and>
         fst (mount_B ls) = None \<and> currentStep (snd (mount_B ls)) = COMPLETION"
proof -
  let ?s = "(initial ls)\<lparr> recordings := map restore clips \<rparr>"
  have l: "load_recordings (initial ls) = (None, ?s)"
    using assms(2) by (simp add: load_recordings_Json initial_def)
  have st: "storage ?s = ls" by (simp add: initial_def)
  have a: "resume_A ?s = (None, ?s\<lparr> user := Some u, currentStep := COMPLETION \<rparr>)"
    by (rule resume_A_completion [where clips = clips]) (simp_all add: st assms)
  have b: "resume_B ?s = (None, ?s\<lparr> user := Some u, currentStep := COMPLETION \<rparr>)"
    by (rule resume_B_completion [where clips = clips]) (simp_all add: st assms)
  show ?thesis
    by (simp add: mount_A_def mount_B_def and_then_def l a b)
qed

theorem resume_three_clips_completion_witness:
  "currentStep (snd (mount_A \<lparr> vocalBoothUser = Some (Json \<lparr> fullName = ''Ani'', docId = ''Ani'' \<rparr>),
       vocalBoothRecordings = Some (Json
         [\<lparr> st_sessionId = 1, st_url = ''u1'', st_filename = ''Ani_Session_1.webm'', blobData = [] \<rparr>,
          \<lparr> st_sessionId = 2, st_url = ''u2'', st_filename = ''Ani_Session_2.webm'', blobData = [] \<rparr>,
          \<lparr> st_sessionId = 3, st_url = ''u3'', st_filename = ''Ani_Session_3.webm'', blobData = [] \<rparr>]),
       vocalBoothCurrentSession =
         Some (Json \<lparr> sessionNumber = 1, isBreakScreen = True, timestamp = 0 \<rparr>) \<rparr>)) = COMPLETION"
  using resume_three_clips_completion
    [of "\<lparr> vocalBoothUser = Some (Json \<lparr> fullName = ''Ani'', docId = ''Ani'' \<rparr>),
       vocalBoothRecordings = Some (Json
         [\<lparr> st_sessionId = 1, st_url = ''u1'', st_filename = ''Ani_Session_1.webm'', blobData = [] \<rparr>,
          \<lparr> st_sessionId = 2, st_url = ''u2'', st_filename = ''Ani_Session_2.webm'', blobData = [] \<rparr>,
          \<lparr> st_sessionId = 3, st_url = ''u3'', st_filename = ''Ani_Session_3.webm'', blobData = [] \<rparr>]),
       vocalBoothCurrentSession =
         Some (Json \<lparr> sessionNumber = 1, isBreakScreen = True, timestamp = 0 \<rparr>) \<rparr>"
       "\<lparr> fullName = ''Ani'', docId = ''Ani'' \<rparr>"
       "[\<lparr> st_sessionId = 1, st_url = ''u1'', st_filename = ''Ani_Session_1.webm'', blobData = [] \<rparr>,
          \<lparr> st_sessionId = 2, st_url = ''u2'', st_filename = ''Ani_Session_2.webm'', blobData = [] \<rparr>,
          \<lparr> st_sessionId = 3, st_url = ''u3'', st_filename = ''Ani_Session_3.webm'', blobData = [] \<rparr>]"]
  by simp

lemma initial_without_recordings:
  "removeItem_Recordings (initial ls) = initial (ls\<lparr> vocalBoothRecordings := None \<rparr>)"
  by (simp add: removeItem_Recordings_def initial_def)

lemma mount_A_Garbled:
  assumes "vocalBoothRecordings ls = Some Garbled"
  shows "mount_A ls = resume_A (initial (ls\<lparr> vocalBoothRecordings := None \<rparr>))"
proof -
  have "load_recordings (initial ls) = (None, removeItem_Recordings (initial ls))"
    using assms by (simp add: load_recordings_Garbled initial_def)
  then show ?thesis
    by (simp add: mount_A_def and_then_def initial_without_recordings)
qed

lemma mount_A_None:
  assumes "vocalBoothRecordings ls = None"
  shows "mount_A ls = resume_A (initial ls)"
proof -
  have "load_recordings (initial ls) = (None, initial ls)"
    using assms by (simp add: load_recordings_None initial_def)
  then show ?thesis
    by (simp add: mount_A_def and_then_def)
qed

lemma mount_B_Garbled:
  assumes "vocalBoothRecordings ls = Some Garbled"
  shows "mount_B ls = resume_B (initial (ls\<lparr> vocalBoothRecordings := None \<rparr>))"
proof -
  have "load_recordings (initial ls) = (None, removeItem_Recordings (initial ls))"
    using assms by (simp add: load_recordings_Garbled initial_def)
  then show ?thesis
    by (simp add: mount_B_def and_then_def initial_without_recordings)
qed

lemma mount_B_None:
  assumes "vocalBoothRecordings ls = None"
  shows "mount_B ls = resume_B (initial ls)"
proof -
  have "load_recordings (initial ls) = (None, initial ls)"
    using assms by (simp add: load_recordings_None initial_def)
  then show ?thesis
    by (simp add: mount_B_def and_then_def)
qed

lemma resume_A_no_exception: "fst (resume_A s) = None"
  by (simp add: resume_A_def split: prod.splits option.splits)

lemma resume_B_no_exception: "fst (resume_B s) = None"
  by (simp add: resume_B_def split: prod.splits option.splits)

lemma resume_A_try_recordings: "recordings (snd (resume_A_try s)) = recordings s"
  by (simp add: resume_A_try_def reset_devices_def Let_def split: sum.splits)

lemma resume_B_try_recordings: "recordings (snd (resume_B_try s)) = recordings s"
  by (simp add: resume_B_try_def reset_devices_def Let_def split: sum.splits)

lemma resume_A_recordings: "recordings (snd (resume_A s)) = recordings s"
  using resume_A_try_recordings [of s]
  by (auto simp: resume_A_def removeItem_User_def removeItem_Recordings_def
      removeItem_CurrentSession_def split: prod.splits option.splits)

lemma resume_B_recordings: "recordings (snd (resume_B s)) = recordings s"
  using resume_B_try_recordings [of s]
  by (auto simp: resume_B_def removeItem_User_def
      removeItem_CurrentSession_def split: prod.splits option.splits)

lemma resume_A_try_storage: "storage (snd (resume_A_try s)) = storage s"
  by (simp add: resume_A_try_def reset_devices_def Let_def split: sum.splits)

lemma resume_B_try_storage: "storage (snd (resume_B_try s)) = storage s"
  by (simp add: resume_B_try_def reset_devices_def Let_def split: sum.splits)

lemma resume_A_keeps_no_recordings:
  "vocalBoothRecordings (storage s) = None \<Longrightarrow>
   vocalBoothRecordings (storage (snd (resume_A s))) = None"
  using resume_A_try_storage [of s]
  by (auto simp: resume_A_def removeItem_User_def removeItem_Recordings_def
      removeItem_CurrentSession_def split: prod.splits option.splits)

lemma resume_B_keeps_no_recordings:
  "vocalBoothRecordings (storage s) = None \<Longrightarrow>
   vocalBoothRecordings (storage (snd (resume_B s))) = None"
  using resume_B_try_storage [of s]
  by (auto simp: resume_B_def removeItem_User_def
      removeItem_CurrentSession_def split: prod.splits option.splits)

text \<open>
  C8. When the persisted recordings are a text that \<^verbatim>\<open>JSON.parse\<close> rejects, mounting
  removes the record, keeps the list of recordings empty, lets no exception escape, and
  ends in the very state it ends in when no recordings are persisted at all (so the
  restored step is the one for no clips). Both variants.
\<close>

theorem corrupted_clips_discarded:
  assumes "vocalBoothRecordings ls = Some Garbled"
  shows "mount_A ls = mount_A (ls\<lparr> vocalBoothRecordings := None \<rparr>) \<and>
         mount_B ls = mount_B (ls\<lparr> vocalBoothRecordings := None \<rparr>) \<and>
         fst (mount_A ls) = None \<and> fst (mount_B ls) = None \<and>
         recordings (snd (mount_A ls)) = [] \<and> recordings (snd (mount_B ls)) = [] \<and>
         vocalBoothRecordings (storage (snd (mount_A ls))) = None \<and>
         vocalBoothRecordings (storage (snd (mount_B ls))) = None"
proof -
  let ?ls = "ls\<lparr> vocalBoothRecordings := None \<rparr>"
  have a: "mount_A ls = resume_A (initial ?ls)"
    using assms by (rule mount_A_Garbled)
  have b: "mount_B ls = resume_B (initial ?ls)"
    using assms by (rule mount_B_Garbled)
  have a': "mount_A ?ls = resume_A (initial ?ls)"
    by (rule mount_A_None) simp
  have b': "mount_B ?ls = resume_B (initial ?ls)"
    by (rule mount_B_None) simp
  have none: "vocalBoothRecordings (storage (initial ?ls)) = None"
    by (simp add: initial_def)
  have empty: "recordings (initial ?ls) = []"
    by (simp add: initial_def)
  show ?thesis
    unfolding a b a' b'
    by (simp add: resume_A_no_exception resume_B_no_exception resume_A_recordings
        resume_B_recordings empty resume_A_keeps_no_recordings [OF none]
        resume_B_keeps_no_recordings [OF none])
qed

theorem corrupted_clips_discarded_witness:
  "mount_A \<lparr> vocalBoothUser = Some (Json \<lparr> fullName = ''Ani'', docId = ''Ani'' \<rparr>),
       vocalBoothRecordings = Some Garbled, vocalBoothCurrentSession = None \<rparr>
   = (None, \<lparr> user = Some \<lparr> fullName = ''Ani'', docId = ''Ani'' \<rparr>, currentStep = DASHBOARD,
        recordings = [], app_videoReady = False, app_audioReady = False,
        app_videoEnabled = False, app_audioEnabled = False,
        storage = \<lparr> vocalBoothUser = Some (Json \<lparr> fullName = ''Ani'', docId = ''Ani'' \<rparr>),
          vocalBoothRecordings = None, vocalBoothCurrentSession = None \<rparr>,
        timeouts = [] \<rparr>)"
proof -
  let ?ls = "\<lparr> vocalBoothUser = Some (Json \<lparr> fullName = ''Ani'', docId = ''Ani'' \<rparr>),
       vocalBoothRecordings = Some Garbled, vocalBoothCurrentSession = None \<rparr>"
  have "mount_A ?ls = mount_A (?ls\<lparr> vocalBoothRecordings := None \<rparr>)"
    using corrupted_clips_discarded [of ?ls] by simp
  then show ?thesis
    by (simp add: mount_A_def and_then_def load_recordings_def initial_def truthy_def
        resume_A_def resume_A_try_def JSON_parse_def all_sessions_recorded_def
        reset_devices_def)
qed

lemma resume_A_in_progress:
  assumes "vocalBoothUser (storage s) = Some (Json u)"
    and "\<not> all_sessions_recorded s"
    and "vocalBoothCurrentSession (storage s) = Some (Json sd)"
    and "\<not> isBreakScreen sd" and "sessionNumber sd \<noteq> 0"
  shows "resume_A s = (None, reset_devices (s\<lparr> user := Some u, currentStep := DASHBOARD \<rparr>))"
  using assms
  by (simp add: resume_A_def resume_A_try_def truthy_def JSON_parse_def Let_def)

lemma resume_B_in_progress:
  assumes "vocalBoothUser (storage s) = Some (Json u)"
    and "\<not> all_sessions_recorded s"
    and "vocalBoothCurrentSession (storage s) = Some (Json sd)"
    and "\<not> isBreakScreen sd"
  shows "resume_B s = (None, reset_devices (s\<lparr> user := Some u,
           currentStep := (if sessionNumber sd = 1 then BREAK_1
                           else if sessionNumber sd = 2 then BREAK_2
                           else if sessionNumber sd = 3 then COMPLETION
                           else DASHBOARD) \<rparr>))"
  using assms
  by (simp add: resume_B_def resume_B_try_def truthy_def JSON_parse_def Let_def)

lemma currentStep_reset_devices [simp]: "currentStep (reset_devices s) = currentStep s"
  by (simp add: reset_devices_def)

text \<open>
  C9. With a saved user, fewer than three clips and a checkpoint of an in-progress
  session 1, 2 or 3 (not a break), variant A restores the dashboard and variant B the
  break after that session (the completion screen after session 3): the two resume
  effects differ on every such state.
\<close>

theorem resume_variants_disagree:
  assumes "vocalBoothUser (storage s) = Some (Json u)"
    and "\<not> all_sessions_recorded s"
    and "vocalBoothCurrentSession (storage s) = Some (Json sd)"
    and "\<not> isBreakScreen sd"
    and "sessionNumber sd = 1 \<or> sessionNumber sd = 2 \<or> sessionNumber sd = 3"
  shows "currentStep (snd (resume_A s)) = DASHBOARD \<and>
         currentStep (snd (resume_B s)) =
           (if sessionNumber sd = 1 then BREAK_1
            else if sessionNumber sd = 2 then BREAK_2 else COMPLETION) \<and>
         resume_A s \<noteq> resume_B s"
proof -
  have n0: "sessionNumber sd \<noteq> 0" using assms(5) by auto
  have a: "currentStep (snd (resume_A s)) = DASHBOARD"
    by (simp add: resume_A_in_progress [OF assms(1-4) n0])
  have b: "currentStep (snd (resume_B s)) =
           (if sessionNumber sd = 1 then BREAK_1
            else if sessionNumber sd = 2 then BREAK_2 else COMPLETION)"
    using assms(5) by (auto simp add: resume_B_in_progress [OF assms(1-4)])
  have "currentStep (snd (resume_A s)) \<noteq> currentStep (snd (resume_B s))"
    unfolding a b by simp
  then have "resume_A s \<noteq> resume_B s" by metis
  with a b show ?thesis by simp
qed

theorem resume_variants_disagree_witness:
  "currentStep (snd (resume_A (initial
      \<lparr> vocalBoothUser = Some (Json \<lparr> fullName = ''Ani'', docId = ''Ani'' \<rparr>),
        vocalBoothRecordings = None,
        vocalBoothCurrentSession =
          Some (Json \<lparr> sessionNumber = 2, isBreakScreen = False, timestamp = 5 \<rparr>) \<rparr>))) = DASHBOARD
   \<and> currentStep (snd (resume_B (initial
      \<lparr> vocalBoothUser = Some (Json \<lparr> fullName = ''Ani'', docId = ''Ani'' \<rparr>),
        vocalBoothRecordings = None,
        vocalBoothCurrentSession =
          Some (Json \<lparr> sessionNumber = 2, isBreakScreen = False, timestamp = 5 \<rparr>) \<rparr>))) = BREAK_2"
  using resume_variants_disagree
    [of "initial \<lparr> vocalBoothUser = Some (Json \<lparr> fullName = ''Ani'', docId = ''Ani'' \<rparr>),
        vocalBoothRecordings = None,
        vocalBoothCurrentSession =
          Some (Json \<lparr> sessionNumber = 2, isBreakScreen = False, timestamp = 5 \<rparr>) \<rparr>"
        "\<lparr> fullName = ''Ani'', docId = ''Ani'' \<rparr>"
        "\<lparr> sessionNumber = 2, isBreakScreen = False, timestamp = 5 \<rparr>"]
  by (simp add: initial_def all_sessions_recorded_def truthy_def)

text \<open>
  C6. With a user logged in, saving a clip for session \<open>n\<close> drops every clip of
  session \<open>n\<close> from the list and appends the new one: the new list holds exactly one
  clip of session \<open>n\<close>, and no session has two clips in it when none had before.
\<close>

theorem saveRecording_one_clip_per_session:
  assumes "user s = Some u"
  shows "(\<exists>r. sessionId r = n \<and> blob r = b \<and>
              recordings (saveRecording createObjectURL b n s) =
                filter (\<lambda>r. sessionId r \<noteq> n) (recordings s) @ [r]) \<and>
         length (filter (\<lambda>r. sessionId r = n)
                   (recordings (saveRecording createObjectURL b n s))) = 1 \<and>
         (distinct (map sessionId (recordings s)) \<longrightarrow>
          distinct (map sessionId (recordings (saveRecording createObjectURL b n s))))"
proof -
  have nofilter: "filter (\<lambda>r. sessionId r = n) (filter (\<lambda>r. sessionId r \<noteq> n) xs) = []" for xs :: "Recording list"
    by (induction xs) auto
  have dist: "distinct (map sessionId xs) \<Longrightarrow> distinct (map sessionId (filter (\<lambda>r. sessionId r \<noteq> n) xs))"
    for xs :: "Recording list"
    by (simp add: distinct_map_filter)
  show ?thesis
    using assms by (auto simp: saveRecording_def Let_def nofilter dist)
qed

theorem saveRecording_one_clip_per_session_witness:
  "map sessionId (recordings (saveRecording (\<lambda>b. ''blob:1'') [1, 2] 1
     ((initial \<lparr> vocalBoothUser = None, vocalBoothRecordings = None,
                 vocalBoothCurrentSession = None \<rparr>)
        \<lparr> user := Some \<lparr> fullName = ''Ani'', docId = ''Ani'' \<rparr>,
          recordings := [\<lparr> sessionId = 1, blob = [], url = ''blob:0'',
                           filename = ''Ani_Session_1.webm'' \<rparr>] \<rparr>))) = [1]"
  using saveRecording_one_clip_per_session
    [of "(initial \<lparr> vocalBoothUser = None, vocalBoothRecordings = None,
                 vocalBoothCurrentSession = None \<rparr>)
        \<lparr> user := Some \<lparr> fullName = ''Ani'', docId = ''Ani'' \<rparr>,
          recordings := [\<lparr> sessionId = 1, blob = [], url = ''blob:0'',
                           filename = ''Ani_Session_1.webm'' \<rparr>] \<rparr>"
        "\<lparr> fullName = ''Ani'', docId = ''Ani'' \<rparr>" 1 "[1, 2]" "\<lambda>b. ''blob:1''"]
  by (auto simp: initial_def)

section \<open>Countdown and finish of a session\<close>

lemma stopTimer_twice: "stopTimer (stopTimer s) = stopTimer s"
  by (simp add: stopTimer_def split: option.splits)

lemma stopTimer_idle: "timerRef s = None \<Longrightarrow> stopTimer s = s"
  by (simp add: stopTimer_def)

lemma stopTimer_single:
  "intervals s = [(h, e)] \<Longrightarrow> timerRef s = Some h \<Longrightarrow>
   stopTimer s = s\<lparr> intervals := [], timerRef := None \<rparr>"
  by (simp add: stopTimer_def clearInterval_def)

lemma recorder_stop_expected:
  "isExpectedToEnd s \<Longrightarrow>
   \<exists>s'. recorder_stop onComplete r (s, p) =
          (s', onComplete (concat (chunksRef s @ (if captured r = [] then [] else [captured r]))) p)
        \<and> intervals s' = intervals s \<and> timerRef s' = timerRef s \<and> timeLeft s' = timeLeft s
        \<and> mediaRecorderRef s' = Some (r\<lparr> state := inactive, captured := [] \<rparr>)"
  by (simp add: recorder_stop_def Let_def)

text \<open>What a call of the finish handler amounts to, in its three branches.\<close>

lemma handleFinishSession_cases:
  "\<exists>s' b. handleFinishSession onComplete err (s, p) = (s', onComplete b p)
     \<and> intervals s' = intervals (stopTimer s) \<and> timerRef s' = None \<and> timeLeft s' = timeLeft s
     \<and> (if \<not> is_error err \<and> (\<exists>r. mediaRecorderRef s = Some r \<and> state r \<noteq> inactive)
         then b = concat (chunksRef s @
                   (if captured (the (mediaRecorderRef s)) = [] then []
                    else [captured (the (mediaRecorderRef s))]))
              \<and> mediaRecorderRef s' =
                  Some ((the (mediaRecorderRef s))\<lparr> state := inactive, captured := [] \<rparr>)
         else b = [] \<and> s' = stopTimer s)"
proof -
  have t: "timerRef (stopTimer s) = None" "timeLeft (stopTimer s) = timeLeft s"
    "mediaRecorderRef (stopTimer s) = mediaRecorderRef s" "chunksRef (stopTimer s) = chunksRef s"
    by (simp_all add: stopTimer_def clearInterval_def split: option.splits)
  show ?thesis
  proof (cases "\<not> is_error err \<and> (\<exists>r. mediaRecorderRef s = Some r \<and> state r \<noteq> inactive)")
    case True
    then obtain r where r: "mediaRecorderRef s = Some r" "state r \<noteq> inactive" by blast
    from recorder_stop_expected [of "(stopTimer s)\<lparr> isExpectedToEnd := True \<rparr>" onComplete r p]
    obtain s' where "recorder_stop onComplete r ((stopTimer s)\<lparr> isExpectedToEnd := True \<rparr>, p) =
          (s', onComplete (concat (chunksRef s @ (if captured r = [] then [] else [captured r]))) p)"
        "intervals s' = intervals (stopTimer s)" "timerRef s' = None" "timeLeft s' = timeLeft s"
        "mediaRecorderRef s' = Some (r\<lparr> state := inactive, captured := [] \<rparr>)"
      using t by auto
    with True r show ?thesis
      by (simp add: handleFinishSession_def Let_def t)
  next
    case False
    then show ?thesis
      by (auto simp: handleFinishSession_def Let_def t split: option.splits)
  qed
qed

lemma tick_idle: "intervals s = [] \<Longrightarrow> tick onComplete (s, p) = (s, p)"
  by (simp add: tick_def)

lemma tick_running:
  "intervals s = [(h, e)] \<Longrightarrow> 1 < timeLeft s \<Longrightarrow>
   tick onComplete (s, p) = (s\<lparr> timeLeft := timeLeft s - 1 \<rparr>, p)"
  by (simp add: tick_def timer_callback_def)

lemma tick_last:
  assumes "intervals s = [(h, e)]" and "timerRef s = Some h" and "timeLeft s \<le> 1"
  shows "\<exists>s' b. tick onComplete (s, p) = (s', onComplete b p)
            \<and> intervals s' = [] \<and> timerRef s' = None \<and> timeLeft s' = 0"
proof -
  from handleFinishSession_cases [of onComplete e s p]
  obtain s' b where f: "handleFinishSession onComplete e (s, p) = (s', onComplete b p)"
    "intervals s' = intervals (stopTimer s)" "timerRef s' = None"
    by blast
  have "intervals (stopTimer s) = []"
    using assms by (simp add: stopTimer_single)
  with f assms have "tick onComplete (s, p) = (s'\<lparr> timeLeft := 0 \<rparr>, onComplete b p)"
    by (simp add: tick_def timer_callback_def)
  moreover have "intervals (s'\<lparr> timeLeft := 0 \<rparr>) = []" "timerRef (s'\<lparr> timeLeft := 0 \<rparr>) = None"
    "timeLeft (s'\<lparr> timeLeft := 0 \<rparr>) = 0"
    using f \<open>intervals (stopTimer s) = []\<close> by simp_all
  ultimately show ?thesis by blast
qed

lemma countdown_running:
  "intervals s = [(h, e)] \<Longrightarrow> int k < timeLeft s \<Longrightarrow>
   (tick onComplete ^^ k) (s, p) = (s\<lparr> timeLeft := timeLeft s - int k \<rparr>, p)"
proof (induction k)
  case 0
  then show ?case by simp
next
  case (Suc k)
  then have "(tick onComplete ^^ k) (s, p) = (s\<lparr> timeLeft := timeLeft s - int k \<rparr>, p)"
    by simp
  moreover have "tick onComplete (s\<lparr> timeLeft := timeLeft s - int k \<rparr>, p)
      = (s\<lparr> timeLeft := timeLeft s - int (Suc k) \<rparr>, p)"
    using Suc.prems by (simp add: tick_running [where h = h and e = e])
  ultimately show ?case by simp
qed

lemma countdown_idle:
  "intervals s = [] \<Longrightarrow> (tick onComplete ^^ k) (s, p) = (s, p)"
  by (induction k) (simp_all add: tick_idle)

lemma countdown_fires:
  assumes "intervals s = [(h, e)]" and "timerRef s = Some h" and "timeLeft s = int (Suc n)"
    and "Suc n \<le> k"
  shows "\<exists>s' b. (tick onComplete ^^ k) (s, p) = (s', onComplete b p)
            \<and> intervals s' = [] \<and> timerRef s' = None \<and> timeLeft s' = 0"
proof -
  have "(tick onComplete ^^ n) (s, p) = (s\<lparr> timeLeft := timeLeft s - int n \<rparr>, p)"
    using assms by (intro countdown_running [where h = h and e = e]) simp_all
  moreover obtain s' b where l: "tick onComplete (s\<lparr> timeLeft := timeLeft s - int n \<rparr>, p) = (s', onComplete b p)"
      "intervals s' = []" "timerRef s' = None" "timeLeft s' = 0"
    using tick_last [of "s\<lparr> timeLeft := timeLeft s - int n \<rparr>" h e onComplete p] assms by auto
  ultimately have "(tick onComplete ^^ Suc n) (s, p) = (s', onComplete b p)" by simp
  moreover have "k = (k - Suc n) + Suc n" using assms by simp
  ultimately have "(tick onComplete ^^ k) (s, p) = (tick onComplete ^^ (k - Suc n)) (s', onComplete b p)"
    by (metis funpow_add o_apply)
  with l have "(tick onComplete ^^ k) (s, p) = (s', onComplete b p)"
    by (simp add: countdown_idle)
  with l show ?thesis by blast
qed

lemma startTimer_fresh:
  "timerRef s = None \<Longrightarrow> intervals s = [] \<Longrightarrow>
   intervals (startTimer err s) = [(nextHandle s, err)] \<and>
   timerRef (startTimer err s) = Some (nextHandle s) \<and>
   timeLeft (startTimer err s) = timeLeft s"
  by (simp add: startTimer_def Let_def)

text \<open>
  C2. A countdown started at 60 on a recorder with no countdown running: after \<open>k\<close>
  seconds with \<open>k < 60\<close> nothing has been completed and \<open>60 - k\<close> seconds are left;
  after 60 seconds or more exactly one completion has happened, the time left is 0 and
  no interval is active any more. Cancelling is idempotent: \<open>stopTimer\<close> twice is
  \<open>stopTimer\<close> once, and it changes nothing when no countdown is running.
\<close>

theorem countdown_fires_once_at_zero:
  assumes "timeLeft s = 60" and "timerRef s = None" and "intervals s = []"
  shows "(k < 60 \<longrightarrow>
            snd ((tick log_complete ^^ k) (startTimer err s, [])) = [] \<and>
            timeLeft (fst ((tick log_complete ^^ k) (startTimer err s, []))) = 60 - int k) \<and>
         (60 \<le> k \<longrightarrow>
            length (snd ((tick log_complete ^^ k) (startTimer err s, []))) = 1 \<and>
            timeLeft (fst ((tick log_complete ^^ k) (startTimer err s, []))) = 0 \<and>
            intervals (fst ((tick log_complete ^^ k) (startTimer err s, []))) = []) \<and>
         stopTimer (stopTimer s') = stopTimer s' \<and>
         (timerRef s' = None \<longrightarrow> stopTimer s' = s')"
proof -
  let ?s = "startTimer err s"
  have st: "intervals ?s = [(nextHandle s, err)]" "timerRef ?s = Some (nextHandle s)"
    "timeLeft ?s = 60"
    using startTimer_fresh [OF assms(2,3), of err] assms(1) by simp_all
  have before: "k < 60 \<Longrightarrow> (tick log_complete ^^ k) (?s, []) = (?s\<lparr> timeLeft := 60 - int k \<rparr>, [])"
    using countdown_running [of ?s "nextHandle s" err k log_complete "[]"] st by simp
  have after: "60 \<le> k \<Longrightarrow> \<exists>s'' b. (tick log_complete ^^ k) (?s, []) = (s'', [b])
            \<and> intervals s'' = [] \<and> timeLeft s'' = 0"
    using countdown_fires [of ?s "nextHandle s" err 59 k log_complete "[]"] st
    by (auto simp: log_complete_def)
  show ?thesis
    using before after by (auto simp: stopTimer_twice stopTimer_idle)
qed

theorem countdown_fires_once_at_zero_witness:
  "timeLeft mounted = 60 \<and> timerRef mounted = None \<and> intervals mounted = [] \<and>
   snd ((tick log_complete ^^ 59) (startTimer None mounted, [])) = [] \<and>
   timeLeft (fst ((tick log_complete ^^ 59) (startTimer None mounted, []))) = 1 \<and>
   length (snd ((tick log_complete ^^ 60) (startTimer None mounted, []))) = 1 \<and>
   length (snd ((tick log_complete ^^ 200) (startTimer None mounted, []))) = 1 \<and>
   stopTimer mounted = mounted"
proof -
  have m: "timeLeft mounted = 60" "timerRef mounted = None" "intervals mounted = []"
    by (simp_all add: mounted_def)
  show ?thesis
    using m countdown_fires_once_at_zero [OF m, of 59 None mounted]
      countdown_fires_once_at_zero [OF m, of 60 None mounted]
      countdown_fires_once_at_zero [OF m, of 200 None mounted]
    by simp
qed

lemma saveRecording_advances:
  assumes "user app = Some u" and "n = 1 \<or> n = 2 \<or> n = 3"
  shows "currentStep (saveRecording createObjectURL b n app) =
           (if n = 1 then BREAK_1 else if n = 2 then BREAK_2 else COMPLETION) \<and>
         (\<exists>r \<in> set (recordings (saveRecording createObjectURL b n app)).
            sessionId r = n \<and> blob r = b)"
  using assms by (auto simp: saveRecording_def Let_def)

text \<open>
  C5. Finishing by the button while \<open>error\<close> is set, or while there is no recorder that
  can be stopped, stops the timer and completes with the empty blob. Whatever the state,
  the finish handler completes exactly once: with the empty blob, or after stopping a
  recorder that was not inactive, with the chunks recorded. With the App's
  \<open>saveRecording\<close> as \<open>onComplete\<close>, a user logged in and session 1, 2 or 3, the first
  case stores an empty clip for the session and moves to the next step.
\<close>

theorem finish_always_completes:
  "(is_error (error s) \<or> \<not> active_recorder s \<longrightarrow>
      click_finish onComplete (s, p) = (stopTimer s, onComplete [] p)) \<and>
   (\<exists>s' b. handleFinishSession onComplete err (s, p) = (s', onComplete b p) \<and>
      (b = [] \<or>
       (\<exists>r. mediaRecorderRef s = Some r \<and> state r \<noteq> inactive \<and>
            mediaRecorderRef s' = Some (r\<lparr> state := inactive, captured := [] \<rparr>) \<and>
            b = concat (chunksRef s @ (if captured r = [] then [] else [captured r]))))) \<and>
   (user app = Some u \<and> (n = 1 \<or> n = 2 \<or> n = 3) \<and>
    (is_error (error s) \<or> \<not> active_recorder s) \<longrightarrow>
      currentStep (snd (click_finish (\<lambda>b. saveRecording createObjectURL b n) (s, app))) =
        (if n = 1 then BREAK_1 else if n = 2 then BREAK_2 else COMPLETION) \<and>
      (\<exists>r \<in> set (recordings (snd (click_finish (\<lambda>b. saveRecording createObjectURL b n) (s, app)))).
         sessionId r = n \<and> blob r = []))"
proof -
  have 1: "click_finish oc (s, q) = (stopTimer s, oc [] q)"
    if "is_error (error s) \<or> \<not> active_recorder s" for oc :: "blob \<Rightarrow> 'b \<Rightarrow> 'b" and q
    using that handleFinishSession_cases [of oc "error s" s q]
    by (auto simp: click_finish_def active_recorder_def split: option.splits if_splits)
  have 2: "\<exists>s' b. handleFinishSession onComplete err (s, p) = (s', onComplete b p) \<and>
      (b = [] \<or>
       (\<exists>r. mediaRecorderRef s = Some r \<and> state r \<noteq> inactive \<and>
            mediaRecorderRef s' = Some (r\<lparr> state := inactive, captured := [] \<rparr>) \<and>
            b = concat (chunksRef s @ (if captured r = [] then [] else [captured r]))))"
  proof -
    let ?C = "\<not> is_error err \<and> (\<exists>r. mediaRecorderRef s = Some r \<and> state r \<noteq> inactive)"
    from handleFinishSession_cases [of onComplete err s p]
    obtain s' b where h: "handleFinishSession onComplete err (s, p) = (s', onComplete b p)"
      and c: "if ?C
         then b = concat (chunksRef s @
                   (if captured (the (mediaRecorderRef s)) = [] then []
                    else [captured (the (mediaRecorderRef s))]))
              \<and> mediaRecorderRef s' =
                  Some ((the (mediaRecorderRef s))\<lparr> state := inactive, captured := [] \<rparr>)
         else b = [] \<and> s' = stopTimer s"
      by blast
    show ?thesis
    proof (cases ?C)
      case True
      then obtain r where r: "mediaRecorderRef s = Some r" "state r \<noteq> inactive" by blast
      with True c have "mediaRecorderRef s' = Some (r\<lparr> state := inactive, captured := [] \<rparr>)"
        "b = concat (chunksRef s @ (if captured r = [] then [] else [captured r]))"
        by simp_all
      with h r show ?thesis by blast
    next
      case False
      with c have "b = []" by simp
      with h show ?thesis by blast
    qed
  qed
  show ?thesis
    using 1 [of onComplete p] 1 [of "\<lambda>b. saveRecording createObjectURL b n" app] 2
      saveRecording_advances [of app u n createObjectURL "[]"]
    by auto
qed

theorem finish_always_completes_witness:
  "currentStep (snd (click_finish (\<lambda>b. saveRecording (\<lambda>b. ''blob:2'') b 2)
      (mounted\<lparr> error := Some ''Camera was turned off.'' \<rparr>,
       (initial \<lparr> vocalBoothUser = None, vocalBoothRecordings = None,
                  vocalBoothCurrentSession = None \<rparr>)
         \<lparr> user := Some \<lparr> fullName = ''Ani'', docId = ''Ani'' \<rparr>,
           currentStep := SESSION_2 \<rparr>))) = BREAK_2"
  using finish_always_completes
    [of "mounted\<lparr> error := Some ''Camera was turned off.'' \<rparr>" log_complete "[]" None
        "(initial \<lparr> vocalBoothUser = None, vocalBoothRecordings = None,
                  vocalBoothCurrentSession = None \<rparr>)
         \<lparr> user := Some \<lparr> fullName = ''Ani'', docId = ''Ani'' \<rparr>,
           currentStep := SESSION_2 \<rparr>"
        "\<lparr> fullName = ''Ani'', docId = ''Ani'' \<rparr>" 2 "\<lambda>b. ''blob:2''"]
  by (simp add: mounted_def initial_def is_error_def)

text \<open>
  C10. With no user logged in \<open>saveRecording\<close> returns the state it was given (the list
  of recordings, the storage with the persisted clips, the current step and the pending
  timeouts), and so does finishing a session whose \<open>onComplete\<close> it is.
\<close>

theorem saveRecording_without_user:
  "user app = None \<Longrightarrow>
     saveRecording createObjectURL b n app = app \<and>
     snd (handleFinishSession (\<lambda>b. saveRecording createObjectURL b n) err (s, app)) = app"
proof -
  assume u: "user app = None"
  then have a: "saveRecording createObjectURL b n app = app" for b
    by (simp add: saveRecording_def)
  obtain s' b' where "handleFinishSession (\<lambda>b. saveRecording createObjectURL b n) err (s, app)
      = (s', saveRecording createObjectURL b' n app)"
    using handleFinishSession_cases [of "\<lambda>b. saveRecording createObjectURL b n" err s app]
    by blast
  with a show ?thesis by simp
qed

theorem saveRecording_without_user_witness:
  "saveRecording (\<lambda>b. ''blob:1'') [1, 2] 1
     ((initial \<lparr> vocalBoothUser = None, vocalBoothRecordings = None,
                vocalBoothCurrentSession = None \<rparr>)\<lparr> currentStep := SESSION_1 \<rparr>)
   = (initial \<lparr> vocalBoothUser = None, vocalBoothRecordings = None,
               vocalBoothCurrentSession = None \<rparr>)\<lparr> currentStep := SESSION_1 \<rparr>"
  using saveRecording_without_user
    [of "(initial \<lparr> vocalBoothUser = None, vocalBoothRecordings = None,
                vocalBoothCurrentSession = None \<rparr>)\<lparr> currentStep := SESSION_1 \<rparr>"]
  by (simp add: initial_def)

section \<open>The device stream of the dashboard\<close>

declare checkTrackStatus.simps [simp del]

lemma length_track_stop [simp]: "length (track_stop a h) = length h"
  by (simp add: track_stop_def deref_def)

lemma live_in_track_stop: "live_in (track_stop a h) = live_in h - {a}"
  by (auto simp: live_in_def track_stop_def deref_def nth_list_update)

lemma length_fold_track_stop [simp]: "length (fold track_stop as h) = length h"
  by (induction as arbitrary: h) simp_all

lemma live_in_fold_track_stop: "live_in (fold track_stop as h) = live_in h - set as"
  by (induction as arbitrary: h) (auto simp: live_in_track_stop)

lemma length_flip_enabled [simp]: "length (flip_enabled a h) = length h"
  by (simp add: flip_enabled_def deref_def)

lemma live_in_flip_enabled [simp]: "live_in (flip_enabled a h) = live_in h"
  by (auto simp: live_in_def flip_enabled_def deref_def nth_list_update)

lemma length_fold_flip_enabled [simp]: "length (fold flip_enabled as h) = length h"
  by (induction as arbitrary: h) simp_all

lemma live_in_fold_flip_enabled [simp]: "live_in (fold flip_enabled as h) = live_in h"
  by (induction as arbitrary: h) simp_all

lemma length_set_enabled [simp]: "length (set_enabled b a h) = length h"
  by (simp add: set_enabled_def deref_def)

lemma live_in_set_enabled [simp]: "live_in (set_enabled b a h) = live_in h"
  by (auto simp: live_in_def set_enabled_def deref_def nth_list_update)

lemma length_fold_release [simp]:
  "length (fold (\<lambda>a h. set_enabled False a (track_stop a h)) as h) = length h"
  by (induction as arbitrary: h) simp_all

lemma live_in_fold_release:
  "live_in (fold (\<lambda>a h. set_enabled False a (track_stop a h)) as h) = live_in h - set as"
  by (induction as arbitrary: h) (auto simp: live_in_track_stop)

lemma live_in_append_old: "live_in (h @ ts) \<inter> {..<length h} = live_in h"
  by (auto simp: live_in_def nth_append)

lemma live_in_append_new: "live_in (h @ ts) \<subseteq> live_in h \<union> {length h ..< length h + length ts}"
  by (auto simp: live_in_def nth_append)

text \<open>The first block of \<open>enableDevices\<close>.\<close>

lemma stop_existing_facts:
  "length (heap (stop_existing d)) = length (heap d)"
  "live_tracks (stop_existing d) = live_tracks d - held_tracks d"
  "streamRef (stop_existing d) = streamRef d"
  by (simp_all add: stop_existing_def live_tracks_def held_tracks_def live_in_fold_track_stop
      split: option.splits)

lemma upt_two_blocks: "[a ..< a + m] @ [a + m ..< a + m + n] = [a ..< a + m + (n::nat)]"
  by (metis le_add1 upt_add_eq_append)

lemma enableDevices_Nil: "enableDevices [] d = stop_existing d"
  by (simp add: stop_existing_def split: option.splits)

lemma enableDevices_both_denied:
  "enableDevices ((Denied, Denied) # answers) d =
     (stop_existing d)\<lparr> permissionError := True, videoReady := False, audioReady := False,
        videoEnabled := False, audioEnabled := False \<rparr>"
  by (simp add: stop_existing_def getUserMedia_def split: option.splits)

lemma enableDevices_some_granted:
  assumes "v \<noteq> Denied \<or> a \<noteq> Denied"
  shows "enableDevices ((v, a) # answers) d =
     (let d2 = stop_existing d; h = heap d2;
          stream = [length h ..< length h + length (granted v) + length (granted a)]
      in checkTrackStatus answers (Some stream)
           (d2\<lparr> heap := h @ granted v @ granted a, streamRef := Some stream,
                videoReady := (if v = Denied then False else videoReady d2),
                videoEnabled := (if v = Denied then False else videoEnabled d2),
                audioReady := (if a = Denied then False else audioReady d2),
                audioEnabled := (if a = Denied then False else audioEnabled d2) \<rparr>))"
proof (cases v; cases a)
  fix vts ats assume "v = Granted vts" "a = Granted ats"
  then show ?thesis
    by (auto simp: stop_existing_def getUserMedia_def Let_def upt_two_blocks split: option.splits
        intro!: arg_cong2 [where f = "checkTrackStatus answers"] Dashboard.equality)
next
  fix vts assume "v = Granted vts" "a = Denied"
  then show ?thesis
    by (auto simp: stop_existing_def getUserMedia_def Let_def split: option.splits
        intro!: arg_cong2 [where f = "checkTrackStatus answers"] Dashboard.equality)
next
  fix ats assume "v = Denied" "a = Granted ats"
  then show ?thesis
    by (auto simp: stop_existing_def getUserMedia_def Let_def split: option.splits
        intro!: arg_cong2 [where f = "checkTrackStatus answers"] Dashboard.equality)
next
  assume "v = Denied" "a = Denied"
  with assms show ?thesis by simp
qed

declare enableDevices.simps [simp del]

lemma checkTrackStatus_ended:
  "has_ended (heap d) stream \<Longrightarrow>
   checkTrackStatus answers (Some stream) d = enableDevices answers d"
  by (auto simp: checkTrackStatus.simps has_ended_def Let_def)

lemma checkTrackStatus_not_ended:
  "\<not> has_ended (heap d) stream \<Longrightarrow>
   checkTrackStatus answers (Some stream) d =
     d\<lparr> videoReady := list_ex (is_state (heap d) live) (getVideoTracks (heap d) stream),
        audioReady := list_ex (is_state (heap d) live) (getAudioTracks (heap d) stream),
        videoEnabled := (case getVideoTracks (heap d) stream of
                           a # _ \<Rightarrow> is_enabled (heap d) a | [] \<Rightarrow> False),
        audioEnabled := (case getAudioTracks (heap d) stream of
                           a # _ \<Rightarrow> is_enabled (heap d) a | [] \<Rightarrow> False) \<rparr>"
  by (auto simp: checkTrackStatus.simps has_ended_def Let_def intro!: Dashboard.equality)

lemma checkTrackStatus_frame:
  "checkTrackStatus answers st d = enableDevices answers d \<or>
   (\<exists>vr ar ve ae. checkTrackStatus answers st d =
      d\<lparr> videoReady := vr, audioReady := ar, videoEnabled := ve, audioEnabled := ae \<rparr>)"
proof (cases st)
  case None
  then show ?thesis by (simp add: checkTrackStatus.simps) blast
next
  case (Some stream)
  show ?thesis
  proof (cases "has_ended (heap d) stream")
    case True
    with Some show ?thesis by (simp add: checkTrackStatus_ended)
  next
    case False
    with Some show ?thesis by (simp add: checkTrackStatus_not_ended) blast
  qed
qed

lemma evolves_flags:
  "evolves d (d\<lparr> videoReady := vr, audioReady := ar, videoEnabled := ve, audioEnabled := ae \<rparr>)"
  by (simp add: evolves_def no_leak_def well_formed_def live_tracks_def held_tracks_def)

lemma evolves_checkTrackStatus:
  assumes "evolves d (enableDevices answers d)"
  shows "evolves d (checkTrackStatus answers st d)"
  using checkTrackStatus_frame [of answers st d] assms evolves_flags by auto

lemma evolves_stop_existing: "evolves d (stop_existing d) \<and> releases d (stop_existing d)"
  by (auto simp: evolves_def releases_def no_leak_def well_formed_def stop_existing_facts
      held_tracks_def)

lemma enableDevices_Cons_ok:
  assumes Q: "\<And>st d'. evolves d' (checkTrackStatus answers st d')"
  shows "evolves d (enableDevices ((v, a) # answers) d) \<and>
         releases d (enableDevices ((v, a) # answers) d)"
proof (cases "v = Denied \<and> a = Denied")
  case True
  have "evolves d ((stop_existing d)\<lparr> permissionError := True, videoReady := False,
        audioReady := False, videoEnabled := False, audioEnabled := False \<rparr>)"
    using evolves_stop_existing [of d]
    by (simp add: evolves_def no_leak_def well_formed_def live_tracks_def held_tracks_def)
  moreover have "releases d ((stop_existing d)\<lparr> permissionError := True, videoReady := False,
        audioReady := False, videoEnabled := False, audioEnabled := False \<rparr>)"
    using evolves_stop_existing [of d]
    by (simp add: releases_def live_tracks_def held_tracks_def)
  ultimately show ?thesis using True by (simp add: enableDevices_both_denied)
next
  case False
  define d2 where "d2 = stop_existing d"
  define h where "h = heap d2"
  define ts where "ts = granted v @ granted a"
  define stream where "stream = [length h ..< length h + length ts]"
  define d5 where "d5 = d2\<lparr> heap := h @ ts, streamRef := Some stream,
                videoReady := (if v = Denied then False else videoReady d2),
                videoEnabled := (if v = Denied then False else videoEnabled d2),
                audioReady := (if a = Denied then False else audioReady d2),
                audioEnabled := (if a = Denied then False else audioEnabled d2) \<rparr>"
  have E: "enableDevices ((v, a) # answers) d = checkTrackStatus answers (Some stream) d5"
    using False
    by (simp add: enableDevices_some_granted Let_def d5_def stream_def ts_def h_def d2_def
        add.assoc)
  have len: "length h = length (heap d)"
    by (simp add: h_def d2_def stop_existing_facts)
  have liveh: "live_in h = live_tracks d - held_tracks d"
    using stop_existing_facts(2) [of d] by (simp add: h_def d2_def live_tracks_def)
  have heap5: "heap d5 = h @ ts" and held5: "held_tracks d5 = {length h ..< length h + length ts}"
    by (simp_all add: d5_def held_tracks_def stream_def)
  have live5_old: "live_tracks d5 \<inter> {..<length (heap d)} = live_tracks d - held_tracks d"
    using live_in_append_old [of h ts] by (simp add: live_tracks_def heap5 len liveh)
  have live5: "live_tracks d5 \<subseteq> (live_tracks d - held_tracks d) \<union> held_tracks d5"
    using live_in_append_new [of h ts] by (simp add: live_tracks_def heap5 liveh held5)
  have wf5: "well_formed d5"
    by (auto simp: well_formed_def held5 heap5)
  have nl5: "no_leak d \<Longrightarrow> no_leak d5"
    using live5 by (auto simp: no_leak_def)
  from Q [of d5 "Some stream"] have ev: "evolves d5 (checkTrackStatus answers (Some stream) d5)" .
  let ?E = "checkTrackStatus answers (Some stream) d5"
  have l5: "length (heap d) \<le> length (heap d5)" by (simp add: heap5 len)
  have old: "live_tracks ?E \<inter> {..<length (heap d)} \<subseteq> live_tracks d - held_tracks d"
  proof -
    have "live_tracks ?E \<inter> {..<length (heap d)} \<subseteq> live_tracks ?E \<inter> {..<length (heap d5)}"
      using l5 by auto
    also have "\<dots> \<subseteq> live_tracks d5" using ev by (simp add: evolves_def)
    finally have "live_tracks ?E \<inter> {..<length (heap d)} \<subseteq> live_tracks d5 \<inter> {..<length (heap d)}"
      by auto
    then show ?thesis by (simp add: live5_old)
  qed
  have "evolves d ?E"
    using ev l5 old nl5 wf5 by (auto simp: evolves_def)
  moreover have "releases d ?E"
    using old by (auto simp: releases_def)
  ultimately show ?thesis by (simp add: E)
qed

lemma enableDevices_ok:
  "evolves d (enableDevices answers d) \<and> releases d (enableDevices answers d)"
proof (induction answers arbitrary: d)
  case Nil
  show ?case by (simp add: enableDevices_Nil evolves_stop_existing)
next
  case (Cons x answers)
  obtain v a where x: "x = (v, a)" by (cases x)
  have "evolves d' (checkTrackStatus answers st d')" for st d'
    using Cons.IH [of d'] by (simp add: evolves_checkTrackStatus)
  then show ?case unfolding x by (rule enableDevices_Cons_ok)
qed

lemma checkTrackStatus_ok: "evolves d (checkTrackStatus answers st d)"
  by (simp add: evolves_checkTrackStatus enableDevices_ok)

lemma evolves_trans: "evolves d d1 \<Longrightarrow> evolves d1 d2 \<Longrightarrow> evolves d d2"
  unfolding evolves_def by (auto 0 3)

lemma evolves_flip:
  "evolves d (d\<lparr> heap := fold flip_enabled as (heap d) \<rparr>)"
  by (simp add: evolves_def no_leak_def well_formed_def live_tracks_def held_tracks_def)

lemma toggleVideo_ok: "evolves d (toggleVideo answers d)"
proof (cases "streamRef d")
  case None
  then show ?thesis by (simp add: toggleVideo_def evolves_def)
next
  case (Some stream)
  then show ?thesis
    using evolves_trans [OF evolves_flip checkTrackStatus_ok]
    by (simp add: toggleVideo_def)
qed

lemma toggleAudio_ok: "evolves d (toggleAudio answers d)"
proof (cases "streamRef d")
  case None
  then show ?thesis by (simp add: toggleAudio_def evolves_def)
next
  case (Some stream)
  then show ?thesis
    using evolves_trans [OF evolves_flip checkTrackStatus_ok]
    by (simp add: toggleAudio_def)
qed

lemma cleanup_facts:
  "live_tracks (cleanup d) = live_tracks d - held_tracks d"
  "held_tracks (cleanup d) = {}"
  "length (heap (cleanup d)) = length (heap d)"
  by (simp_all add: cleanup_def live_tracks_def held_tracks_def live_in_fold_release
      split: option.splits)

lemma cleanup_ok: "evolves d (cleanup d)"
  by (auto simp: evolves_def no_leak_def well_formed_def cleanup_facts)

lemma apply_operation_ok: "evolves d (apply_operation op d)"
proof (cases op)
  case (Reconnect answers)
  then show ?thesis
    using enableDevices_ok [of d answers]
    by (simp add: checkAndReconnect_def) (simp add: evolves_def)
qed (simp_all add: enableDevices_ok cleanup_ok toggleVideo_ok toggleAudio_ok)

lemma run_ok: "evolves d (run ops d)"
proof (induction ops arbitrary: d)
  case Nil
  show ?case by (simp add: run_def evolves_def)
next
  case (Cons op ops)
  have "evolves d (apply_operation op d)" by (rule apply_operation_ok)
  moreover have "evolves (apply_operation op d) (run ops (apply_operation op d))"
    by (rule Cons.IH)
  ultimately have "evolves d (run ops (apply_operation op d))"
    by (rule evolves_trans)
  then show ?case by (simp add: run_def)
qed

lemma dashboard_mounted_ok: "no_leak dashboard_mounted \<and> well_formed dashboard_mounted"
  by (simp add: no_leak_def well_formed_def dashboard_mounted_def live_tracks_def
      live_in_def held_tracks_def)

lemma reachable_ok:
  "no_leak (run ops dashboard_mounted) \<and> well_formed (run ops dashboard_mounted)"
  using run_ok [of dashboard_mounted ops] dashboard_mounted_ok by (simp add: evolves_def)

text \<open>
  As long as every operation runs to its end before the next begins, every live track
  belongs to the one stream the controller holds: an acquisition ends every track of the
  stream held before it, and a release leaves no live track and no stream. This is what
  the block "Stop existing tracks if any" and the cleanup are there for.
\<close>

lemma no_leak_without_overlap:
  "live_tracks (run ops dashboard_mounted) \<subseteq> held_tracks (run ops dashboard_mounted) \<and>
   live_tracks (enableDevices answers (run ops dashboard_mounted))
     \<inter> held_tracks (run ops dashboard_mounted) = {} \<and>
   live_tracks (enableDevices answers (run ops dashboard_mounted))
     \<subseteq> held_tracks (enableDevices answers (run ops dashboard_mounted)) \<and>
   live_tracks (cleanup (run ops dashboard_mounted)) = {} \<and>
   streamRef (cleanup (run ops dashboard_mounted)) = None"
proof -
  let ?d = "run ops dashboard_mounted"
  have inv: "no_leak ?d" "well_formed ?d" using reachable_ok [of ops] by simp_all
  have a: "live_tracks ?d \<subseteq> held_tracks ?d" using inv by (simp add: no_leak_def)
  have "releases ?d (enableDevices answers ?d)" by (simp add: enableDevices_ok)
  then have b: "live_tracks (enableDevices answers ?d) \<inter> held_tracks ?d = {}"
    using inv(2) by (auto simp: releases_def well_formed_def)
  have "evolves ?d (enableDevices answers ?d)" by (simp add: enableDevices_ok)
  then have c: "live_tracks (enableDevices answers ?d) \<subseteq> held_tracks (enableDevices answers ?d)"
    using inv(1) by (simp add: evolves_def no_leak_def)
  have d: "live_tracks (cleanup ?d) = {}"
    using a by (auto simp: cleanup_facts)
  have e: "streamRef (cleanup ?d) = None"
    by (simp add: cleanup_def split: option.splits)
  from a b c d e show ?thesis by simp
qed

lemma run_events_Cons: "run_events (e # evs) w = run_events evs (step e w)"
  by (simp add: run_events_def)

lemma run_events_idle: "run_events (settle_all answers) (d, []) = (d, [])"
  by (induction answers) (auto simp: run_events_def)

lemma check_status_ended:
  "has_ended (heap d) stream \<Longrightarrow> check_status (Some stream) d = (stop_existing d, True)"
  by (auto simp: has_ended_def Let_def)

lemma check_status_not_ended:
  "\<not> has_ended (heap d) stream \<Longrightarrow>
   check_status (Some stream) d = (checkTrackStatus answers (Some stream) d, False)"
  by (auto simp: has_ended_def Let_def checkTrackStatus.simps)


lemma checkTrackStatus_by_check_status:
  assumes "\<And>d. enableDevices answers d = F (stop_existing d)"
  shows "checkTrackStatus answers st d =
           (case check_status st d of (d', started) \<Rightarrow> if started then F d' else d')"
proof (cases st)
  case None
  then show ?thesis by (simp add: checkTrackStatus.simps)
next
  case (Some stream)
  show ?thesis
  proof (cases "has_ended (heap d) stream")
    case True
    then show ?thesis
      using assms by (simp add: Some check_status_ended checkTrackStatus_ended del: check_status.simps)
  next
    case False
    then show ?thesis
      by (simp add: Some check_status_not_ended [of d stream answers] del: check_status.simps)
  qed
qed

lemma enableDevices_by_stretches:
  assumes link: "\<And>st d. checkTrackStatus answers st d =
           (case check_status st d of (d', started) \<Rightarrow> if started then F d' else d')"
  shows "enableDevices ((v, a) # answers) d =
     (case video_settled v (stop_existing d) of (videoStream, d3) \<Rightarrow>
        (case audio_settled videoStream a d3 of (d', started) \<Rightarrow>
           if started then F d' else d'))"
  by (cases v; cases a)
     (simp_all add: enableDevices.simps link video_settled_def audio_settled_def
        getUserMedia_def stop_existing_def Let_def
        del: check_status.simps split: option.splits)

lemma settle_one_call:
  "run_events (settle_all ((v, a) # answers)) (d, [AwaitingVideo]) =
     run_events (settle_all answers)
       (case video_settled v d of (videoStream, d3) \<Rightarrow>
          (case audio_settled videoStream a d3 of (d', started) \<Rightarrow>
             (d', if started then [AwaitingVideo] else [])))"
  by (simp add: run_events_Cons split: prod.splits)

text \<open>
  A call that nothing interrupts, its requests answered in turn, does what
  \<open>enableDevices\<close> says.
\<close>

lemma uninterrupted_call:
  "fst (run_events (settle_all answers) (stop_existing d, [AwaitingVideo]))
     = enableDevices answers d"
proof (induction answers arbitrary: d)
  case Nil
  show ?case by (simp add: run_events_def enableDevices_Nil)
next
  case (Cons x answers)
  obtain v a where x: "x = (v, a)" by (cases x)
  let ?F = "\<lambda>d'. fst (run_events (settle_all answers) (d', [AwaitingVideo]))"
  have "enableDevices answers d = ?F (stop_existing d)" for d
    by (simp add: Cons.IH)
  then have link: "checkTrackStatus answers st d =
           (case check_status st d of (d', started) \<Rightarrow> if started then ?F d' else d')" for st d
    by (rule checkTrackStatus_by_check_status)
  show ?case
    unfolding x enableDevices_by_stretches [where F = ?F, OF link] settle_one_call
    by (simp add: run_events_idle split: prod.splits)
qed

lemma overlapped_state:
  "run_events
     [ClickEnable, ClickEnable,
      Settle 0 (Granted [\<lparr> kind = video, readyState = live, enabled = True \<rparr>]),
      Settle 1 (Granted [\<lparr> kind = video, readyState = live, enabled = True \<rparr>]),
      Settle 0 (Granted [\<lparr> kind = audio, readyState = live, enabled = True \<rparr>]),
      Settle 0 (Granted [\<lparr> kind = audio, readyState = live, enabled = True \<rparr>])]
     (dashboard_mounted, [])
   = (\<lparr> streamRef = Some [1, 3], videoReady = True, audioReady = True,
        permissionError = False, videoEnabled = True, audioEnabled = True,
        heap = [\<lparr> kind = video, readyState = live, enabled = True \<rparr>,
                \<lparr> kind = video, readyState = live, enabled = True \<rparr>,
                \<lparr> kind = audio, readyState = live, enabled = True \<rparr>,
                \<lparr> kind = audio, readyState = live, enabled = True \<rparr>] \<rparr>, [])"
  by (simp add: run_events_def dashboard_mounted_def stop_existing_def video_settled_def
      audio_settled_def getUserMedia_def Let_def getVideoTracks_def getAudioTracks_def
      has_kind_def is_state_def is_enabled_def deref_def upt_rec nth_append)

lemma unmounted_in_flight_state:
  "run_events
     [ClickEnable, Unmount,
      Settle 0 (Granted [\<lparr> kind = video, readyState = live, enabled = True \<rparr>]),
      Settle 0 (Granted [\<lparr> kind = audio, readyState = live, enabled = True \<rparr>])]
     (dashboard_mounted, [])
   = (\<lparr> streamRef = Some [0, 1], videoReady = True, audioReady = True,
        permissionError = False, videoEnabled = True, audioEnabled = True,
        heap = [\<lparr> kind = video, readyState = live, enabled = True \<rparr>,
                \<lparr> kind = audio, readyState = live, enabled = True \<rparr>] \<rparr>, [])"
  by (simp add: run_events_def dashboard_mounted_def stop_existing_def video_settled_def
      audio_settled_def getUserMedia_def Let_def getVideoTracks_def getAudioTracks_def
      has_kind_def is_state_def is_enabled_def deref_def upt_rec nth_append cleanup_def)

text \<open>
  C4. The controller is meant never to leave a live track outside the one stream it
  holds. The code does not keep this: \<^verbatim>\<open>enableDevices\<close> stops the old
  tracks once, before its first \<^verbatim>\<open>await\<close>, and nothing keeps a second call from
  starting while the first is in flight. After two clicks on "Enable Camera &
  Microphone" and the four grants, no call is in flight, the controller holds the second
  call's stream (tracks 1 and 3), and the first call's tracks 0 and 2 are live and held
  by nothing. Likewise a call in flight at the unmount leaves its tracks 0 and 1 live
  after the cleanup has run.
\<close>

theorem overlapping_acquisitions_leak:
  "snd (run_events
     [ClickEnable, ClickEnable,
      Settle 0 (Granted [\<lparr> kind = video, readyState = live, enabled = True \<rparr>]),
      Settle 1 (Granted [\<lparr> kind = video, readyState = live, enabled = True \<rparr>]),
      Settle 0 (Granted [\<lparr> kind = audio, readyState = live, enabled = True \<rparr>]),
      Settle 0 (Granted [\<lparr> kind = audio, readyState = live, enabled = True \<rparr>])]
     (dashboard_mounted, [])) = [] \<and>
   held_tracks (fst (run_events
     [ClickEnable, ClickEnable,
      Settle 0 (Granted [\<lparr> kind = video, readyState = live, enabled = True \<rparr>]),
      Settle 1 (Granted [\<lparr> kind = video, readyState = live, enabled = True \<rparr>]),
      Settle 0 (Granted [\<lparr> kind = audio, readyState = live, enabled = True \<rparr>]),
      Settle 0 (Granted [\<lparr> kind = audio, readyState = live, enabled = True \<rparr>])]
     (dashboard_mounted, []))) = {1, 3} \<and>
   {0, 2} \<subseteq> live_tracks (fst (run_events
     [ClickEnable, ClickEnable,
      Settle 0 (Granted [\<lparr> kind = video, readyState = live, enabled = True \<rparr>]),
      Settle 1 (Granted [\<lparr> kind = video, readyState = live, enabled = True \<rparr>]),
      Settle 0 (Granted [\<lparr> kind = audio, readyState = live, enabled = True \<rparr>]),
      Settle 0 (Granted [\<lparr> kind = audio, readyState = live, enabled = True \<rparr>])]
     (dashboard_mounted, []))) \<and>
   \<not> live_tracks (fst (run_events
     [ClickEnable, ClickEnable,
      Settle 0 (Granted [\<lparr> kind = video, readyState = live, enabled = True \<rparr>]),
      Settle 1 (Granted [\<lparr> kind = video, readyState = live, enabled = True \<rparr>]),
      Settle 0 (Granted [\<lparr> kind = audio, readyState = live, enabled = True \<rparr>]),
      Settle 0 (Granted [\<lparr> kind = audio, readyState = live, enabled = True \<rparr>])]
     (dashboard_mounted, [])))
     \<subseteq> held_tracks (fst (run_events
     [ClickEnable, ClickEnable,
      Settle 0 (Granted [\<lparr> kind = video, readyState = live, enabled = True \<rparr>]),
      Settle 1 (Granted [\<lparr> kind = video, readyState = live, enabled = True \<rparr>]),
      Settle 0 (Granted [\<lparr> kind = audio, readyState = live, enabled = True \<rparr>]),
      Settle 0 (Granted [\<lparr> kind = audio, readyState = live, enabled = True \<rparr>])]
     (dashboard_mounted, []))) \<and>
   {0, 1} \<subseteq> live_tracks (fst (run_events
     [ClickEnable, Unmount,
      Settle 0 (Granted [\<lparr> kind = video, readyState = live, enabled = True \<rparr>]),
      Settle 0 (Granted [\<lparr> kind = audio, readyState = live, enabled = True \<rparr>])]
     (dashboard_mounted, [])))"
proof -
  let ?w = "run_events
     [ClickEnable, ClickEnable,
      Settle 0 (Granted [\<lparr> kind = video, readyState = live, enabled = True \<rparr>]),
      Settle 1 (Granted [\<lparr> kind = video, readyState = live, enabled = True \<rparr>]),
      Settle 0 (Granted [\<lparr> kind = audio, readyState = live, enabled = True \<rparr>]),
      Settle 0 (Granted [\<lparr> kind = audio, readyState = live, enabled = True \<rparr>])]
     (dashboard_mounted, [])"
  have calls: "snd ?w = []"
    unfolding overlapped_state by simp
  have held: "held_tracks (fst ?w) = {1, 3}"
    unfolding overlapped_state by (simp add: held_tracks_def)
  have lives: "{0, 2} \<subseteq> live_tracks (fst ?w)"
    unfolding overlapped_state by (simp add: live_tracks_def live_in_def)
  have leak: "\<not> live_tracks (fst ?w) \<subseteq> held_tracks (fst ?w)"
  proof
    assume "live_tracks (fst ?w) \<subseteq> held_tracks (fst ?w)"
    with lives have "(0::nat) \<in> {1, 3}" unfolding held by blast
    then show False by simp
  qed
  have after_unmount: "{0, 1} \<subseteq> live_tracks (fst (run_events
     [ClickEnable, Unmount,
      Settle 0 (Granted [\<lparr> kind = video, readyState = live, enabled = True \<rparr>]),
      Settle 0 (Granted [\<lparr> kind = audio, readyState = live, enabled = True \<rparr>])]
     (dashboard_mounted, [])))"
    unfolding unmounted_in_flight_state by (simp add: live_tracks_def live_in_def)
  from calls held lives leak after_unmount show ?thesis
    by (intro conjI)
qed

lemma deref_fresh:
  "a \<in> set [length h ..< length h + length ts] \<Longrightarrow>
   deref (h @ ts) a = Some (ts ! (a - length h)) \<and> ts ! (a - length h) \<in> set ts"
  by (auto simp: deref_def nth_append)

lemma map_deref_fresh:
  "map (deref (h @ ts)) [length h ..< length h + length ts] = map Some ts"
  by (rule nth_equalityI) (simp_all add: deref_def nth_append)

lemma not_ended_fresh:
  assumes "\<forall>t \<in> set ts. readyState t = live"
  shows "\<not> has_ended (h @ ts) [length h ..< length h + length ts]"
proof -
  have "\<not> is_state (h @ ts) ended a" if "a \<in> set [length h ..< length h + length ts]" for a
    using deref_fresh [OF that] assms by (auto simp: is_state_def)
  then show ?thesis
    by (auto simp: has_ended_def list_ex_iff getVideoTracks_def getAudioTracks_def)
qed

lemma tracks_of_one_kind:
  assumes "map (deref h) stream = map Some ts" and "\<forall>t \<in> set ts. kind t = k"
  shows "filter (has_kind h k) stream = stream"
    and "k' \<noteq> k \<Longrightarrow> filter (has_kind h k') stream = []"
proof -
  have *: "\<exists>t \<in> set ts. deref h a = Some t" if "a \<in> set stream" for a
  proof -
    from that have "deref h a \<in> set (map (deref h) stream)" by simp
    then show ?thesis unfolding assms(1) by auto
  qed
  have k: "has_kind h k a" if "a \<in> set stream" for a
    using * [OF that] assms(2) by (auto simp: has_kind_def)
  have nk: "\<not> has_kind h k' a" if "a \<in> set stream" "k' \<noteq> k" for a
    using * [OF that(1)] assms(2) that(2) by (auto simp: has_kind_def)
  show "filter (has_kind h k) stream = stream"
    using k by (simp add: filter_id_conv)
  show "filter (has_kind h k') stream = []" if "k' \<noteq> k"
    using nk that by (simp add: filter_empty_conv)
qed

text \<open>What \<open>enableDevices\<close> leaves when something was granted and is live.\<close>

lemma enableDevices_granted_live:
  assumes "v \<noteq> Denied \<or> a \<noteq> Denied"
    and "\<forall>t \<in> set (granted v @ granted a). readyState t = live"
  shows "\<exists>d5 stream.
     enableDevices ((v, a) # answers) d =
       d5\<lparr> videoReady := list_ex (is_state (heap d5) live) (getVideoTracks (heap d5) stream),
           audioReady := list_ex (is_state (heap d5) live) (getAudioTracks (heap d5) stream),
           videoEnabled := (case getVideoTracks (heap d5) stream of
                              a # _ \<Rightarrow> is_enabled (heap d5) a | [] \<Rightarrow> False),
           audioEnabled := (case getAudioTracks (heap d5) stream of
                              a # _ \<Rightarrow> is_enabled (heap d5) a | [] \<Rightarrow> False) \<rparr>
     \<and> streamRef d5 = Some stream \<and> \<not> permissionError d5
     \<and> set stream \<inter> {..<length (heap d)} = {}
     \<and> map (deref (heap d5)) stream = map Some (granted v @ granted a)"
proof -
  define d2 where "d2 = stop_existing d"
  define h where "h = heap d2"
  define ts where "ts = granted v @ granted a"
  define stream where "stream = [length h ..< length h + length ts]"
  define d5 where "d5 = d2\<lparr> heap := h @ ts, streamRef := Some stream,
                videoReady := (if v = Denied then False else videoReady d2),
                videoEnabled := (if v = Denied then False else videoEnabled d2),
                audioReady := (if a = Denied then False else audioReady d2),
                audioEnabled := (if a = Denied then False else audioEnabled d2) \<rparr>"
  have E: "enableDevices ((v, a) # answers) d = checkTrackStatus answers (Some stream) d5"
    using assms(1)
    by (simp add: enableDevices_some_granted Let_def d5_def stream_def ts_def h_def d2_def
        add.assoc)
  have heap5: "heap d5 = h @ ts" by (simp add: d5_def)
  have "\<not> has_ended (heap d5) stream"
    unfolding heap5 stream_def using assms(2) by (intro not_ended_fresh) (simp add: ts_def)
  note E' = E [unfolded checkTrackStatus_not_ended [OF this]]
  have len: "length h = length (heap d)"
    by (simp add: h_def d2_def stop_existing_facts)
  have 1: "streamRef d5 = Some stream" by (simp add: d5_def)
  have 2: "\<not> permissionError d5" by (simp add: d5_def d2_def stop_existing_def split: option.splits)
  have 3: "set stream \<inter> {..<length (heap d)} = {}" by (auto simp: stream_def len)
  have 4: "map (deref (heap d5)) stream = map Some (granted v @ granted a)"
    unfolding heap5 stream_def ts_def [symmetric] by (rule map_deref_fresh)
  show ?thesis
    by (intro exI [of _ d5] exI [of _ stream] conjI) (rule E' 1 2 3 4)+
qed

text \<open>
  C3. One call of \<open>enableDevices\<close>, for every pair of answers whose new tracks are live
  (as the browser hands them out). Both requests denied: the permission error is set, no
  track is created, the reference is the one held before (none, if none was held) and it
  holds no live track. Otherwise: no permission error, and the stream consists of new
  tracks, exactly the ones granted to the video request followed by the ones granted to
  the audio request; so with the audio request denied and video tracks granted it has
  video tracks only, and the other way round.
\<close>

theorem enableDevices_partial_grants:
  assumes "\<forall>t \<in> set (granted v @ granted a). readyState t = live"
  shows
   "(v = Denied \<and> a = Denied \<longrightarrow>
       permissionError (enableDevices ((v, a) # answers) d) \<and>
       streamRef (enableDevices ((v, a) # answers) d) = streamRef d \<and>
       length (heap (enableDevices ((v, a) # answers) d)) = length (heap d) \<and>
       live_tracks (enableDevices ((v, a) # answers) d)
         \<inter> held_tracks (enableDevices ((v, a) # answers) d) = {}) \<and>
    (v \<noteq> Denied \<or> a \<noteq> Denied \<longrightarrow>
       \<not> permissionError (enableDevices ((v, a) # answers) d) \<and>
       (\<exists>stream. streamRef (enableDevices ((v, a) # answers) d) = Some stream \<and>
          set stream \<inter> {..<length (heap d)} = {} \<and>
          map (deref (heap (enableDevices ((v, a) # answers) d))) stream
            = map Some (granted v @ granted a) \<and>
          (a = Denied \<and> (\<forall>t \<in> set (granted v). kind t = video) \<longrightarrow>
             getVideoTracks (heap (enableDevices ((v, a) # answers) d)) stream = stream \<and>
             getAudioTracks (heap (enableDevices ((v, a) # answers) d)) stream = []) \<and>
          (v = Denied \<and> (\<forall>t \<in> set (granted a). kind t = audio) \<longrightarrow>
             getAudioTracks (heap (enableDevices ((v, a) # answers) d)) stream = stream \<and>
             getVideoTracks (heap (enableDevices ((v, a) # answers) d)) stream = [])))"
proof (cases "v = Denied \<and> a = Denied")
  case True
  let ?E = "(stop_existing d)\<lparr> permissionError := True, videoReady := False,
     audioReady := False, videoEnabled := False, audioEnabled := False \<rparr>"
  have "live_tracks ?E = live_tracks d - held_tracks d" "held_tracks ?E = held_tracks d"
    using stop_existing_facts [of d] by (simp_all add: live_tracks_def held_tracks_def)
  then have "live_tracks ?E \<inter> held_tracks ?E = {}" by auto
  then show ?thesis
    using True by (simp add: enableDevices_both_denied stop_existing_facts)
next
  case False
  then have g: "v \<noteq> Denied \<or> a \<noteq> Denied" by simp
  from enableDevices_granted_live [OF g assms, of answers d]
  obtain d5 stream where all:
    "enableDevices ((v, a) # answers) d =
       d5\<lparr> videoReady := list_ex (is_state (heap d5) live) (getVideoTracks (heap d5) stream),
           audioReady := list_ex (is_state (heap d5) live) (getAudioTracks (heap d5) stream),
           videoEnabled := (case getVideoTracks (heap d5) stream of
                              a # _ \<Rightarrow> is_enabled (heap d5) a | [] \<Rightarrow> False),
           audioEnabled := (case getAudioTracks (heap d5) stream of
                              a # _ \<Rightarrow> is_enabled (heap d5) a | [] \<Rightarrow> False) \<rparr>
     \<and> streamRef d5 = Some stream \<and> \<not> permissionError d5
     \<and> set stream \<inter> {..<length (heap d)} = {}
     \<and> map (deref (heap d5)) stream = map Some (granted v @ granted a)"
    by (elim exE)
  note E = all [THEN conjunct1]
  note f = all [THEN conjunct2, THEN conjunct1] all [THEN conjunct2, THEN conjunct2, THEN conjunct1]
    all [THEN conjunct2, THEN conjunct2, THEN conjunct2, THEN conjunct1]
    all [THEN conjunct2, THEN conjunct2, THEN conjunct2, THEN conjunct2]
  have v: "getVideoTracks (heap d5) stream = stream \<and> getAudioTracks (heap d5) stream = []"
    if "a = Denied" "\<forall>t \<in> set (granted v). kind t = video"
    using tracks_of_one_kind [of "heap d5" stream "granted v" video] f(4) that
    by (simp add: getVideoTracks_def getAudioTracks_def)
  have au: "getAudioTracks (heap d5) stream = stream \<and> getVideoTracks (heap d5) stream = []"
    if "v = Denied" "\<forall>t \<in> set (granted a). kind t = audio"
    using tracks_of_one_kind [of "heap d5" stream "granted a" audio] f(4) that
    by (simp add: getVideoTracks_def getAudioTracks_def)
  let ?E = "enableDevices ((v, a) # answers) d"
  have hE: "heap ?E = heap d5" "streamRef ?E = Some stream" "\<not> permissionError ?E"
    by (simp_all add: E f)
  have body: "streamRef ?E = Some stream \<and>
          set stream \<inter> {..<length (heap d)} = {} \<and>
          map (deref (heap ?E)) stream = map Some (granted v @ granted a) \<and>
          (a = Denied \<and> (\<forall>t \<in> set (granted v). kind t = video) \<longrightarrow>
             getVideoTracks (heap ?E) stream = stream \<and> getAudioTracks (heap ?E) stream = []) \<and>
          (v = Denied \<and> (\<forall>t \<in> set (granted a). kind t = audio) \<longrightarrow>
             getAudioTracks (heap ?E) stream = stream \<and> getVideoTracks (heap ?E) stream = [])"
    unfolding hE using f(3,4) v au by simp
  have first: "v = Denied \<and> a = Denied \<longrightarrow>
       permissionError ?E \<and> streamRef ?E = streamRef d \<and>
       length (heap ?E) = length (heap d) \<and> live_tracks ?E \<inter> held_tracks ?E = {}"
    using False by blast
  have second: "\<not> permissionError ?E \<and>
       (\<exists>stream. streamRef ?E = Some stream \<and>
          set stream \<inter> {..<length (heap d)} = {} \<and>
          map (deref (heap ?E)) stream = map Some (granted v @ granted a) \<and>
          (a = Denied \<and> (\<forall>t \<in> set (granted v). kind t = video) \<longrightarrow>
             getVideoTracks (heap ?E) stream = stream \<and> getAudioTracks (heap ?E) stream = []) \<and>
          (v = Denied \<and> (\<forall>t \<in> set (granted a). kind t = audio) \<longrightarrow>
             getAudioTracks (heap ?E) stream = stream \<and> getVideoTracks (heap ?E) stream = []))"
  proof (rule conjI)
    show "\<not> permissionError ?E" by (rule hE(3))
  qed (rule exI [of _ stream], rule body)
  from first second show ?thesis by (rule conjI [OF _ impI])
qed

theorem enableDevices_partial_grants_witness:
  "\<not> permissionError (enableDevices
       [(Granted [\<lparr> kind = video, readyState = live, enabled = True \<rparr>], Denied)]
       dashboard_mounted) \<and>
   streamRef (enableDevices
       [(Granted [\<lparr> kind = video, readyState = live, enabled = True \<rparr>], Denied)]
       dashboard_mounted) = Some [0] \<and>
   getAudioTracks (heap (enableDevices
       [(Granted [\<lparr> kind = video, readyState = live, enabled = True \<rparr>], Denied)]
       dashboard_mounted)) [0] = [] \<and>
   permissionError (enableDevices [(Denied, Denied)] dashboard_mounted) \<and>
   streamRef (enableDevices [(Denied, Denied)] dashboard_mounted) = None"
proof -
  let ?cam = "\<lparr> kind = video, readyState = live, enabled = True \<rparr>"
  let ?E = "enableDevices [(Granted [?cam], Denied)] dashboard_mounted"
  have s: "streamRef ?E = Some [0]"
    by (simp add: dashboard_mounted_def enableDevices.simps checkTrackStatus.simps
      getUserMedia_def Let_def getVideoTracks_def getAudioTracks_def has_kind_def
      is_state_def deref_def is_enabled_def upt_rec)
  have "\<forall>t \<in> set (granted (Granted [?cam]) @ granted Denied). readyState t = live"
    by simp
  from enableDevices_partial_grants [OF this, of "[]" dashboard_mounted]
  have "\<not> permissionError ?E \<and> getAudioTracks (heap ?E) [0] = []"
    using s by auto
  moreover have "\<forall>t \<in> set (granted Denied @ granted Denied). readyState t = live"
    by simp
  from enableDevices_partial_grants [OF this, of "[]" dashboard_mounted]
  have "permissionError (enableDevices [(Denied, Denied)] dashboard_mounted) \<and>
        streamRef (enableDevices [(Denied, Denied)] dashboard_mounted) = None"
    by (simp add: dashboard_mounted_def)
  ultimately show ?thesis using s by simp
qed

text \<open>
  C7. While \<open>videoReady\<close> or \<open>audioReady\<close> is false the start button is disabled and a
  click on it changes nothing; a click that changes the App found both ready and leads to
  \<open>SESSION_1\<close>. After an acquisition in which the video request is denied and live
  audio tracks are granted, \<open>videoReady\<close> is false and the button is disabled.
\<close>

theorem start_needs_both_devices:
  "(\<not> videoReady d \<or> \<not> audioReady d \<longrightarrow>
      start_disabled d \<and> click_start now d app = app) \<and>
   (click_start now d app \<noteq> app \<longrightarrow>
      videoReady d \<and> audioReady d \<and>
      currentStep (click_start now d app) = SESSION_1) \<and>
   ((\<forall>t \<in> set ats. kind t = audio \<and> readyState t = live) \<longrightarrow>
      \<not> videoReady (enableDevices ((Denied, Granted ats) # answers) d) \<and>
      start_disabled (enableDevices ((Denied, Granted ats) # answers) d))"
proof -
  have A: "\<not> videoReady d \<or> \<not> audioReady d \<longrightarrow>
      start_disabled d \<and> click_start now d app = app"
    by (simp add: start_disabled_def allSystemsGo_def click_start_def)
  have B: "click_start now d app \<noteq> app \<longrightarrow>
      videoReady d \<and> audioReady d \<and> currentStep (click_start now d app) = SESSION_1"
  proof (cases "start_disabled d")
    case True
    then show ?thesis by (simp add: click_start_def)
  next
    case False
    then have "videoReady d \<and> audioReady d"
      by (simp add: start_disabled_def allSystemsGo_def)
    moreover have "currentStep (handleStartExam now app) = SESSION_1"
      by (simp add: handleStartExam_def saveSessionState_def)
    ultimately show ?thesis using False by (simp add: click_start_def)
  qed
  have C: "(\<forall>t \<in> set ats. kind t = audio \<and> readyState t = live) \<longrightarrow>
      \<not> videoReady (enableDevices ((Denied, Granted ats) # answers) d) \<and>
      start_disabled (enableDevices ((Denied, Granted ats) # answers) d)"
  proof
    assume a: "\<forall>t \<in> set ats. kind t = audio \<and> readyState t = live"
    have live: "\<forall>t \<in> set (granted Denied @ granted (Granted ats)). readyState t = live"
      using a by simp
    have some: "Denied \<noteq> Denied \<or> Granted ats \<noteq> Denied" by simp
    from enableDevices_granted_live [OF some live, of answers d]
    obtain d5 stream where all:
      "enableDevices ((Denied, Granted ats) # answers) d =
       d5\<lparr> videoReady := list_ex (is_state (heap d5) live) (getVideoTracks (heap d5) stream),
           audioReady := list_ex (is_state (heap d5) live) (getAudioTracks (heap d5) stream),
           videoEnabled := (case getVideoTracks (heap d5) stream of
                              a # _ \<Rightarrow> is_enabled (heap d5) a | [] \<Rightarrow> False),
           audioEnabled := (case getAudioTracks (heap d5) stream of
                              a # _ \<Rightarrow> is_enabled (heap d5) a | [] \<Rightarrow> False) \<rparr>
     \<and> streamRef d5 = Some stream \<and> \<not> permissionError d5
     \<and> set stream \<inter> {..<length (heap d)} = {}
     \<and> map (deref (heap d5)) stream = map Some (granted Denied @ granted (Granted ats))"
      by (elim exE)
    note E = all [THEN conjunct1]
    have f: "map (deref (heap d5)) stream = map Some ats"
      using all by simp
    have "getVideoTracks (heap d5) stream = []"
      using tracks_of_one_kind(2) [of "heap d5" stream ats audio video] f a
      by (simp add: getVideoTracks_def)
    then have "\<not> videoReady (enableDevices ((Denied, Granted ats) # answers) d)"
      by (simp add: E)
    then show "\<not> videoReady (enableDevices ((Denied, Granted ats) # answers) d) \<and>
      start_disabled (enableDevices ((Denied, Granted ats) # answers) d)"
      by (simp add: start_disabled_def allSystemsGo_def)
  qed
  show ?thesis by (rule conjI [OF A conjI [OF B C]])
qed

theorem start_needs_both_devices_witness:
  "click_start 0
     (enableDevices [(Denied, Granted [\<lparr> kind = audio, readyState = live, enabled = True \<rparr>])]
        dashboard_mounted)
     ((initial \<lparr> vocalBoothUser = None, vocalBoothRecordings = None,
                 vocalBoothCurrentSession = None \<rparr>)
        \<lparr> user := Some \<lparr> fullName = ''Ani'', docId = ''Ani'' \<rparr>, currentStep := DASHBOARD \<rparr>)
   = (initial \<lparr> vocalBoothUser = None, vocalBoothRecordings = None,
                 vocalBoothCurrentSession = None \<rparr>)
        \<lparr> user := Some \<lparr> fullName = ''Ani'', docId = ''Ani'' \<rparr>, currentStep := DASHBOARD \<rparr>"
proof -
  let ?mic = "\<lparr> kind = audio, readyState = live, enabled = True \<rparr>"
  let ?d = "enableDevices [(Denied, Granted [?mic])] dashboard_mounted"
  let ?app = "(initial \<lparr> vocalBoothUser = None, vocalBoothRecordings = None,
                 vocalBoothCurrentSession = None \<rparr>)
        \<lparr> user := Some \<lparr> fullName = ''Ani'', docId = ''Ani'' \<rparr>, currentStep := DASHBOARD \<rparr>"
  have "\<forall>t \<in> set [?mic]. kind t = audio \<and> readyState t = live" by simp
  with start_needs_both_devices [of dashboard_mounted 0 ?app "[?mic]" "[]"]
  have "\<not> videoReady ?d" by blast
  with start_needs_both_devices [of ?d 0 ?app "[]" "[]"]
  show ?thesis by blast
qed

end
